theory Spec2Isabelle
  imports Complex_Main "HOL-Library.Sublist"
begin

section \<open>Pipeline topology layout and interaction: the PipelineGraph component\<close>

text \<open>
  The development embeds the effect body of the \<open>PipelineGraph\<close> component (the variant
  with saved positions, zoom and node dragging) and the part of the simpler variant in
  \<open>components/PipelineGraph.tsx\<close> that it shares with it (layer classification and link
  derivation are the same text in both).

  Conventions of the embedding:
  \<^item> A JavaScript number is a \<open>real\<close>. Rounding and overflow of IEEE doubles are not
    modelled. The one operation of this code that can turn finite numbers into a
    non-finite one is a division, and the division whose divisor is computed is modelled
    as partial (\<open>js_div\<close>).
  \<^item> A string is a \<open>char list\<close>; \<open>toLowerCase\<close> maps the letters \<open>A\<close> to \<open>Z\<close> and
    leaves every other character alone.
  \<^item> The array \<open>nodes\<close> is the store of the node objects: a reference to a node object is
    its index in that array. \<open>layers\<close> and the links hold references, as the JavaScript
    arrays do, so that a mutation of a node is seen through every reference to it.
  \<^item> An object used as a dictionary (\<open>Record<string, {x, y}>\<close>) is a plain object: a map
    from its own keys, together with the members it inherits from \<open>Object.prototype\<close>,
    which a property read finds as well (\<open>get_property\<close>); an \<open>{x, y}\<close> object is a
    pair. The live position cache is only written by key and handed over whole, and is
    the map of what was written.
  \<^item> A property that has not been assigned (\<open>undefined\<close>) is \<open>None\<close>.
\<close>

subsection \<open>Data model (types.ts)\<close>

datatype StepStatus = Pending | Running | Completed | Error
datatype StepType = Source | Transform | Sink | Utility

record PipelineStep =
  id' :: string
  name :: string
  description :: string
  dependencies :: "string list"
  status :: "StepStatus option"
  type' :: "StepType option"

text \<open>A node is \<open>{ ...s, layer }\<close>, to which the placement later adds \<open>x\<close> and \<open>y\<close>.\<close>

record Node = PipelineStep +
  layer :: nat
  x :: "real option"
  y :: "real option"

type_synonym ref = nat

type_synonym Position = "real \<times> real"

record Link =
  source :: ref
  target :: ref

datatype js_error = TypeError | NonFinite

subsection \<open>Strings\<close>

definition toLowerCase_char :: "char \<Rightarrow> char" where
  "toLowerCase_char c =
     (case map_of (zip ''ABCDEFGHIJKLMNOPQRSTUVWXYZ'' ''abcdefghijklmnopqrstuvwxyz'') c of
        Some l \<Rightarrow> l
      | None \<Rightarrow> c)"

definition toLowerCase :: "string \<Rightarrow> string" where
  "toLowerCase s = map toLowerCase_char s"

text \<open>\<open>s.includes(k)\<close>: does \<open>k\<close> occur in \<open>s\<close> at some position.\<close>

fun includes' :: "string \<Rightarrow> string \<Rightarrow> bool" where
  "includes' [] k = (k = [])"
| "includes' (c # cs) k = (prefix k (c # cs) \<or> includes' cs k)"

subsection \<open>Graph model builder: nodes\<close>

definition layer_of_name :: "string \<Rightarrow> nat" where
  "layer_of_name s_name =
     (let name = toLowerCase s_name in
      if includes' name ''fetch'' \<or> includes' name ''read'' \<or> includes' name ''source''
      then 0
      else if includes' name ''store'' \<or> includes' name ''load'' \<or> includes' name ''sink''
              \<or> includes' name ''postgre''
      then 2
      else 1)"

definition make_node :: "PipelineStep \<Rightarrow> Node" where
  "make_node s =
     \<lparr>id' = id' s, name = name s, description = description s,
      dependencies = dependencies s, status = status s, type' = type' s,
      layer = layer_of_name (name s), x = None, y = None\<rparr>"

definition build_nodes :: "PipelineStep list \<Rightarrow> Node list" where
  "build_nodes steps = map make_node steps"

text \<open>\<open>nodes.filter(n => n.layer === l)\<close>, as the references it keeps, in the order of \<open>nodes\<close>.\<close>

definition filter_layer :: "Node list \<Rightarrow> nat \<Rightarrow> ref list" where
  "filter_layer nodes l = filter (\<lambda>r. layer (nodes ! r) = l) [0..<length nodes]"

definition build_layers :: "Node list \<Rightarrow> ref list list" where
  "build_layers nodes = [filter_layer nodes 0, filter_layer nodes 1, filter_layer nodes 2]"

subsection \<open>Layout engine\<close>

definition baseHeight :: real where "baseHeight = 320"
definition perNodeHeight :: real where "perNodeHeight = 70"
definition paddingX :: real where "paddingX = 100"
definition paddingY :: real where "paddingY = 50"

text \<open>\<open>container?.clientWidth || 800\<close>: an absent container and a width of zero are falsy.\<close>

definition resolve_width :: "nat option \<Rightarrow> real" where
  "resolve_width clientWidth =
     (case clientWidth of
        None \<Rightarrow> 800
      | Some w \<Rightarrow> if w = 0 then 800 else real w)"

text \<open>\<open>Math.max(...layers.map(layer => layer.length), 1)\<close>\<close>

definition maxLayerSize :: "ref list list \<Rightarrow> nat" where
  "maxLayerSize layers = foldr max (map length layers) 1"

definition canvas_height :: "ref list list \<Rightarrow> real" where
  "canvas_height layers = max baseHeight (real (maxLayerSize layers) * perNodeHeight)"

text \<open>\<open>a.indexOf(v)\<close>: the first index holding \<open>v\<close>, or \<open>-1\<close>.\<close>

fun indexOf :: "'a list \<Rightarrow> 'a \<Rightarrow> int" where
  "indexOf [] v = - 1"
| "indexOf (a # as) v =
     (if a = v then 0 else (let i = indexOf as v in if i < 0 then - 1 else i + 1))"

text \<open>\<open>a[i]\<close> on an array: \<open>undefined\<close> out of range.\<close>

definition at_index :: "'a list \<Rightarrow> nat \<Rightarrow> 'a option" where
  "at_index a i = (if i < length a then Some (a ! i) else None)"

text \<open>A division whose result is not a finite number (division by zero) is \<open>None\<close>.\<close>

definition js_div :: "real \<Rightarrow> real \<Rightarrow> real option" where
  "js_div a b = (if b = 0 then None else Some (a / b))"

text \<open>
  The body of the placement loop for the node object \<open>r\<close>. Reading \<open>.indexOf\<close> of an
  \<open>undefined\<close> bucket throws.
\<close>

definition place_node :: "real \<Rightarrow> real \<Rightarrow> ref list list \<Rightarrow> Node list \<Rightarrow> ref \<Rightarrow> js_error + Node list" where
  "place_node width height layers nodes r =
     (let n = nodes ! r in
      case at_index layers (layer n) of
        None \<Rightarrow> Inl TypeError
      | Some layerNodes \<Rightarrow>
          (let nodeIdx = indexOf layerNodes r;
               layerX = paddingX + real (layer n) * ((width - paddingX * 2) / 2)
           in case js_div (height - paddingY * 2) (real (length layerNodes + 1)) of
                None \<Rightarrow> Inl NonFinite
              | Some q \<Rightarrow>
                  (let layerY = paddingY + q * real_of_int (nodeIdx + 1)
                   in Inr (nodes[r := n\<lparr>x := Some layerX, y := Some layerY\<rparr>]))))"

text \<open>\<open>nodes.forEach(body)\<close> for a body that mutates node objects and may throw.\<close>

fun forEach_ref :: "(Node list \<Rightarrow> ref \<Rightarrow> js_error + Node list) \<Rightarrow> ref list \<Rightarrow> Node list \<Rightarrow> js_error + Node list" where
  "forEach_ref body [] nodes = Inr nodes"
| "forEach_ref body (r # rs) nodes =
     (case body nodes r of
        Inl e \<Rightarrow> Inl e
      | Inr nodes' \<Rightarrow> forEach_ref body rs nodes')"

definition default_placement :: "real \<Rightarrow> real \<Rightarrow> ref list list \<Rightarrow> Node list \<Rightarrow> js_error + Node list" where
  "default_placement width height layers nodes =
     forEach_ref (place_node width height layers) [0..<length nodes] nodes"

text \<open>
  The names of the members that every plain object inherits from \<open>Object.prototype\<close>.
  Each of them is a function, except \<open>__proto__\<close>, which reads as the prototype object:
  all of them are truthy, and none has a property \<open>x\<close> or \<open>y\<close>.
\<close>

definition Object_prototype_keys :: "string list" where
  "Object_prototype_keys =
     [''constructor'', ''hasOwnProperty'', ''isPrototypeOf'', ''propertyIsEnumerable'',
      ''toLocaleString'', ''toString'', ''valueOf'', ''__proto__'', ''__defineGetter__'',
      ''__defineSetter__'', ''__lookupGetter__'', ''__lookupSetter__'']"

text \<open>
  The property read \<open>o[k]\<close> on a plain object \<open>o\<close>: the entry of an own key; for a key
  that is not an own key, the inherited member of that name if there is one, and
  \<open>undefined\<close> otherwise.
\<close>

datatype 'a js_property = Undefined | Own 'a | Inherited

definition get_property :: "(string \<rightharpoonup> 'a) \<Rightarrow> string \<Rightarrow> 'a js_property" where
  "get_property obj k =
     (case obj k of
        Some v \<Rightarrow> Own v
      | None \<Rightarrow> if k \<in> set Object_prototype_keys then Inherited else Undefined)"

text \<open>
  The override by saved positions: \<open>if (savedPositions) nodes.forEach(...)\<close>. The body
  reads \<open>saved = savedPositions[n.id]\<close> and, when \<open>saved\<close> is truthy, assigns \<open>saved.x\<close>
  and \<open>saved.y\<close>; on an inherited member both are \<open>undefined\<close>.
\<close>

definition apply_saved :: "(string \<rightharpoonup> Position) option \<Rightarrow> Node list \<Rightarrow> Node list" where
  "apply_saved savedPositions nodes =
     (case savedPositions of
        None \<Rightarrow> nodes
      | Some positions \<Rightarrow>
          map (\<lambda>n. case get_property positions (id' n) of
                      Undefined \<Rightarrow> n
                    | Own saved \<Rightarrow> n\<lparr>x := Some (fst saved), y := Some (snd saved)\<rparr>
                    | Inherited \<Rightarrow> n\<lparr>x := None, y := None\<rparr>)
              nodes)"

text \<open>The seed of the live position cache: \<open>nodes.reduce((acc, n) => ..., {})\<close>.\<close>

definition seed_positions :: "Node list \<Rightarrow> (string \<rightharpoonup> real option \<times> real option)" where
  "seed_positions nodes = fold (\<lambda>n acc. acc(id' n \<mapsto> (x n, y n))) nodes Map.empty"

subsection \<open>Graph model builder: links\<close>

text \<open>\<open>nodes.find(n => n.id === k)\<close>: a reference to the first node with that id.\<close>

definition find_node :: "Node list \<Rightarrow> string \<Rightarrow> ref option" where
  "find_node nodes k = List.find (\<lambda>r. id' (nodes ! r) = k) [0..<length nodes]"

definition push_link :: "Node list \<Rightarrow> PipelineStep \<Rightarrow> string \<Rightarrow> Link list \<Rightarrow> Link list" where
  "push_link nodes step depId links =
     (case find_node nodes depId of
        None \<Rightarrow> links
      | Some s \<Rightarrow>
          (case find_node nodes (id' step) of
             None \<Rightarrow> links
           | Some t \<Rightarrow> links @ [\<lparr>source = s, target = t\<rparr>]))"

definition build_links :: "PipelineStep list \<Rightarrow> Node list \<Rightarrow> Link list" where
  "build_links steps nodes =
     fold (\<lambda>step links. fold (push_link nodes step) (dependencies step) links) steps []"

subsection \<open>Render surface: link paths\<close>

text \<open>
  The \<open>d\<close> attribute \<open>M sx,sy C c1x,c1y c2x,c2y tx,ty\<close> of a link, as its four points.
  A path with an \<open>undefined\<close> coordinate is \<open>None\<close>. The argument of \<open>Math.sqrt\<close> is a
  sum of two squares.
\<close>

record CubicPath =
  path_M :: "real \<times> real"
  path_C1 :: "real \<times> real"
  path_C2 :: "real \<times> real"
  path_end :: "real \<times> real"

text \<open>The callback of \<open>.attr('d', ...)\<close> where the links are first drawn.\<close>

definition linkSelection_d :: "Node list \<Rightarrow> Link \<Rightarrow> CubicPath option" where
  "linkSelection_d nodes d =
     (case (x (nodes ! source d), y (nodes ! source d), x (nodes ! target d), y (nodes ! target d)) of
        (Some sx, Some sy, Some tx, Some ty) \<Rightarrow>
          (let dx = tx - sx;
               dy = ty - sy;
               dr = sqrt (dx * dx + dy * dy)
           in Some \<lparr>path_M = (sx, sy), path_C1 = (sx + dr / 2, sy),
                    path_C2 = (tx - dr / 2, ty), path_end = (tx, ty)\<rparr>)
      | _ \<Rightarrow> None)"

text \<open>The callback of \<open>updateLinks\<close>, run on every drag event.\<close>

definition updateLinks_d :: "Node list \<Rightarrow> Link \<Rightarrow> CubicPath option" where
  "updateLinks_d nodes d =
     (case (x (nodes ! source d), y (nodes ! source d), x (nodes ! target d), y (nodes ! target d)) of
        (Some sx, Some sy, Some tx, Some ty) \<Rightarrow>
          (let dx = tx - sx;
               dy = ty - sy;
               dr = sqrt (dx * dx + dy * dy)
           in Some \<lparr>path_M = (sx, sy), path_C1 = (sx + dr / 2, sy),
                    path_C2 = (tx - dr / 2, ty), path_end = (tx, ty)\<rparr>)
      | _ \<Rightarrow> None)"

subsection \<open>The effect: build, place, draw\<close>

text \<open>
  What one run of the effect leaves behind: the node objects, the links, the height
  given to \<open>setSvgHeight\<close>, the live position cache \<open>positionsRef.current\<close>, the
  \<open>d\<close> attribute of every link path, the \<open>translate\<close> of every node group and the
  scale of the \<open>transform\<close> attribute of the group \<open>g\<close> (not set until the first zoom
  event).
\<close>

record Scene =
  scene_nodes :: "Node list"
  scene_links :: "Link list"
  svgHeight :: real
  positionsRef :: "string \<rightharpoonup> real option \<times> real option"
  link_paths :: "CubicPath option list"
  node_translate :: "(real option \<times> real option) list"
  g_scale :: "real option"

text \<open>
  \<open>svg_mounted\<close> is \<open>svgRef.current\<close> being non-null, \<open>clientWidth\<close> is
  \<open>container?.clientWidth\<close>. The result \<open>Inr None\<close> is the early \<open>return\<close>.
\<close>

definition render :: "bool \<Rightarrow> nat option \<Rightarrow> PipelineStep list \<Rightarrow> (string \<rightharpoonup> Position) option \<Rightarrow> js_error + Scene option" where
  "render svg_mounted clientWidth steps savedPositions =
     (if \<not> svg_mounted \<or> length steps = 0 then Inr None
      else
        (let width = resolve_width clientWidth;
             nodes = build_nodes steps;
             layers = build_layers nodes;
             height = canvas_height layers
         in case default_placement width height layers nodes of
              Inl e \<Rightarrow> Inl e
            | Inr placed \<Rightarrow>
                (let nodes' = apply_saved savedPositions placed;
                     links = build_links steps nodes'
                 in Inr (Some \<lparr>scene_nodes = nodes', scene_links = links, svgHeight = height,
                               positionsRef = seed_positions nodes',
                               link_paths = map (linkSelection_d nodes') links,
                               node_translate = map (\<lambda>n. (x n, y n)) nodes',
                               g_scale = None\<rparr>))))"

subsection \<open>Interaction controller\<close>

text \<open>
  The \<open>drag\<close> handler of the node group bound to the node object \<open>d\<close>, for an event at
  \<open>(event.x, event.y)\<close>.
\<close>

definition drag :: "ref \<Rightarrow> real \<times> real \<Rightarrow> Scene \<Rightarrow> Scene" where
  "drag d event sc =
     (let nodes' = (scene_nodes sc)[d := (scene_nodes sc ! d)\<lparr>x := Some (fst event), y := Some (snd event)\<rparr>];
          n = nodes' ! d
      in sc\<lparr>scene_nodes := nodes',
            positionsRef := (positionsRef sc)(id' n \<mapsto> (x n, y n)),
            node_translate := (node_translate sc)[d := (x n, y n)],
            link_paths := map (updateLinks_d nodes') (scene_links sc)\<rparr>)"

text \<open>The click handler of the save button hands \<open>positionsRef.current\<close> to the host.\<close>

definition save_layout :: "Scene \<Rightarrow> (string \<rightharpoonup> real option \<times> real option)" where
  "save_layout sc = positionsRef sc"

definition scaleExtent :: "real \<times> real" where
  "scaleExtent = (0.7, 1.6)"

text \<open>
  Modelled from the spec: the zoom behaviour of the d3 library, which is not under src/.
  The spec says that the scale a gesture asks for is clamped to the configured range.
\<close>

definition d3_constrain_scale :: "real \<times> real \<Rightarrow> real \<Rightarrow> real" where
  "d3_constrain_scale extent k = max (fst extent) (min (snd extent) k)"

text \<open>The \<open>zoom\<close> handler writes the transform of the event to the group \<open>g\<close>.\<close>

definition zoom_gesture :: "real \<Rightarrow> Scene \<Rightarrow> Scene" where
  "zoom_gesture requested sc = sc\<lparr>g_scale := Some (d3_constrain_scale scaleExtent requested)\<rparr>"

text \<open>The scale at which the scene is drawn: the identity until \<open>g\<close> has a transform.\<close>

definition rendered_scale :: "Scene \<Rightarrow> real" where
  "rendered_scale sc = (case g_scale sc of None \<Rightarrow> 1 | Some k \<Rightarrow> k)"

subsection \<open>Closed forms used in the proofs\<close>

text \<open>The closed form of what the placement loop writes to the node object \<open>r\<close>.\<close>

definition placed :: "real \<Rightarrow> real \<Rightarrow> ref list list \<Rightarrow> Node \<Rightarrow> ref \<Rightarrow> Node" where
  "placed width height layers n r =
     n\<lparr>x := Some (paddingX + real (layer n) * ((width - paddingX * 2) / 2)),
       y := Some (paddingY + (height - paddingY * 2) / real (length (layers ! layer n) + 1)
                    * real_of_int (indexOf (layers ! layer n) r + 1))\<rparr>"

text \<open>The node objects at the end of the effect.\<close>

definition final_nodes :: "nat option \<Rightarrow> PipelineStep list \<Rightarrow> (string \<rightharpoonup> Position) option \<Rightarrow> Node list" where
  "final_nodes cw steps sp =
     (let nodes = build_nodes steps; layers = build_layers nodes
      in apply_saved sp
           (map (\<lambda>r. placed (resolve_width cw) (canvas_height layers) layers (nodes ! r) r)
              [0..<length nodes]))"

text \<open>The links one dependency of a step contributes.\<close>

definition links_of_dep :: "Node list \<Rightarrow> PipelineStep \<Rightarrow> string \<Rightarrow> Link list" where
  "links_of_dep nodes step depId = push_link nodes step depId []"

section \<open>Auxiliary facts\<close>

lemma includes'_sublist: "includes' s k \<longleftrightarrow> sublist k s"
  by (induction s) (simp_all add: sublist_Cons_right)

lemma layer_of_name_le: "layer_of_name nm \<le> 2"
  by (simp add: layer_of_name_def Let_def)

lemma make_node_id [simp]: "id' (make_node s) = id' s"
  by (simp add: make_node_def)

lemma make_node_layer [simp]: "layer (make_node s) = layer_of_name (name s)"
  by (simp add: make_node_def)

lemma build_nodes_length [simp]: "length (build_nodes steps) = length steps"
  by (simp add: build_nodes_def)

lemma build_nodes_ids: "map id' (build_nodes steps) = map id' steps"
  by (simp add: build_nodes_def)

lemma layer_of_name_lt: "layer_of_name nm < 3"
  by (simp add: layer_of_name_def Let_def)

lemma build_nodes_layer_lt: "n \<in> set (build_nodes steps) \<Longrightarrow> layer n < 3"
  by (auto simp: build_nodes_def layer_of_name_lt)

lemma placed_layer [simp]: "layer (placed w h ls n r) = layer n"
  by (simp add: placed_def)

lemma placed_id [simp]: "id' (placed w h ls n r) = id' n"
  by (simp add: placed_def)

lemma place_node_Inr:
  assumes "layer (nodes ! r) < length layers"
  shows "place_node w h layers nodes r = Inr (nodes[r := placed w h layers (nodes ! r) r])"
  using assms by (simp add: place_node_def at_index_def js_div_def placed_def Let_def)

lemma forEach_place:
  assumes "\<forall>r\<in>set rs. r < length nodes \<and> layer (nodes ! r) < length layers"
  shows "forEach_ref (place_node w h layers) rs nodes =
         Inr (fold (\<lambda>r ns. ns[r := placed w h layers (ns ! r) r]) rs nodes)"
  using assms
proof (induction rs arbitrary: nodes)
  case Nil
  then show ?case by simp
next
  case (Cons r rs)
  let ?ns = "nodes[r := placed w h layers (nodes ! r) r]"
  have step: "place_node w h layers nodes r = Inr ?ns"
    using Cons.prems by (simp add: place_node_Inr)
  have "\<forall>q\<in>set rs. q < length ?ns \<and> layer (?ns ! q) < length layers"
    using Cons.prems by (auto simp: nth_list_update)
  from Cons.IH [OF this] step show ?case by simp
qed

lemma fold_update_length:
  "length (fold (\<lambda>r ns. ns[r := f (ns ! r) r]) rs nodes) = length nodes"
  by (induction rs arbitrary: nodes) simp_all

lemma fold_update_nth:
  assumes "distinct rs" "i < length nodes"
  shows "fold (\<lambda>r ns. ns[r := f (ns ! r) r]) rs nodes ! i =
         (if i \<in> set rs then f (nodes ! i) i else nodes ! i)"
  using assms
proof (induction rs arbitrary: nodes)
  case Nil
  then show ?case by simp
next
  case (Cons r rs)
  let ?ns = "nodes[r := f (nodes ! r) r]"
  have IH: "fold (\<lambda>r ns. ns[r := f (ns ! r) r]) rs ?ns ! i =
            (if i \<in> set rs then f (?ns ! i) i else ?ns ! i)"
    using Cons.prems by (intro Cons.IH) simp_all
  show ?case
  proof (cases "i = r")
    case True
    with Cons.prems IH show ?thesis by simp
  next
    case False
    with IH show ?thesis by simp
  qed
qed

lemma default_placement_Inr:
  assumes "\<forall>n\<in>set nodes. layer n < length layers"
  shows "default_placement w h layers nodes =
         Inr (map (\<lambda>r. placed w h layers (nodes ! r) r) [0..<length nodes])"
proof -
  let ?f = "\<lambda>r ns. ns[r := placed w h layers (ns ! r) r]"
  have "default_placement w h layers nodes = Inr (fold ?f [0..<length nodes] nodes)"
    unfolding default_placement_def using assms by (intro forEach_place) simp
  moreover have "fold ?f [0..<length nodes] nodes =
      map (\<lambda>r. placed w h layers (nodes ! r) r) [0..<length nodes]"
    by (rule nth_equalityI) (simp_all add: fold_update_length fold_update_nth)
  ultimately show ?thesis by simp
qed

lemma toLowerCase_char_idem: "toLowerCase_char (toLowerCase_char c) = toLowerCase_char c"
  by (simp add: toLowerCase_char_def)

lemma toLowerCase_idem: "toLowerCase (toLowerCase s) = toLowerCase s"
  by (simp add: toLowerCase_def toLowerCase_char_idem)

lemma apply_saved_ids: "map id' (apply_saved sp nodes) = map id' nodes"
  by (cases sp) (auto simp: apply_saved_def split: js_property.splits)

lemma apply_saved_length [simp]: "length (apply_saved sp nodes) = length nodes"
  by (cases sp) (simp_all add: apply_saved_def)

lemma build_layers_length [simp]: "length (build_layers nodes) = 3"
  by (simp add: build_layers_def)

lemma placement_of_build:
  "default_placement w h (build_layers (build_nodes steps)) (build_nodes steps) =
   Inr (map (\<lambda>r. placed w h (build_layers (build_nodes steps)) (build_nodes steps ! r) r)
          [0..<length steps])"
  using default_placement_Inr [of "build_nodes steps" "build_layers (build_nodes steps)" w h]
  by (simp add: build_nodes_layer_lt)

lemma placed_ids:
  "map id' (map (\<lambda>r. placed w h ls (nodes ! r) r) [0..<length nodes]) = map id' nodes"
  by (rule nth_equalityI) simp_all

lemma render_eq:
  "render m cw steps sp =
     (if \<not> m \<or> steps = [] then Inr None
      else Inr (Some \<lparr>scene_nodes = final_nodes cw steps sp,
                      scene_links = build_links steps (final_nodes cw steps sp),
                      svgHeight = canvas_height (build_layers (build_nodes steps)),
                      positionsRef = seed_positions (final_nodes cw steps sp),
                      link_paths = map (linkSelection_d (final_nodes cw steps sp))
                                     (build_links steps (final_nodes cw steps sp)),
                      node_translate = map (\<lambda>n. (x n, y n)) (final_nodes cw steps sp),
                      g_scale = None\<rparr>))"
  by (simp add: render_def placement_of_build final_nodes_def Let_def)

lemma final_nodes_ids: "map id' (final_nodes cw steps sp) = map id' steps"
  using placed_ids [of _ _ _ "build_nodes steps"]
  by (simp add: final_nodes_def Let_def apply_saved_ids build_nodes_ids)

lemma indexOf_nth: "distinct xs \<Longrightarrow> j < length xs \<Longrightarrow> indexOf xs (xs ! j) = int j"
proof (induction xs arbitrary: j)
  case Nil
  then show ?case by simp
next
  case (Cons a xs)
  show ?case
  proof (cases j)
    case 0
    then show ?thesis by simp
  next
    case (Suc k)
    with Cons.prems have k: "k < length xs" "distinct xs" "xs ! k \<noteq> a"
      by auto
    with Cons.IH [of k] Suc show ?thesis by (simp add: Let_def)
  qed
qed

lemma build_layers_nth: "l < 3 \<Longrightarrow> build_layers nodes ! l = filter_layer nodes l"
proof -
  assume "l < 3"
  then consider "l = 0" | "l = 1" | "l = 2" by linarith
  then show ?thesis by cases (simp_all add: build_layers_def)
qed

lemma filter_layer_distinct: "distinct (filter_layer nodes l)"
  by (simp add: filter_layer_def)

lemma filter_layer_set: "set (filter_layer nodes l) = {r. r < length nodes \<and> layer (nodes ! r) = l}"
  by (auto simp: filter_layer_def)

lemma canvas_height_build:
  "canvas_height (build_layers nodes) =
   max baseHeight (real (Max (set (map length (build_layers nodes)))) * perNodeHeight)"
  by (simp add: canvas_height_def maxLayerSize_def build_layers_def baseHeight_def perNodeHeight_def max_def)

lemma canvas_height_ge: "baseHeight \<le> canvas_height layers"
  by (simp add: canvas_height_def)


text \<open>The layer buckets of a sample step list.\<close>

lemma ex_layers:
  "build_layers (build_nodes
     [\<lparr>id' = ''A'', name = ''Fetch Readings'', description = [], dependencies = [],
       status = None, type' = None\<rparr>,
      \<lparr>id' = ''B'', name = ''Clean Data'', description = [], dependencies = [''A''],
       status = None, type' = None\<rparr>,
      \<lparr>id' = ''C'', name = ''Read Table'', description = [], dependencies = [''B''],
       status = None, type' = None\<rparr>]) = [ [0, 2], [1], []]"
  by (simp add: build_layers_def filter_layer_def build_nodes_def make_node_def layer_of_name_def
      toLowerCase_def toLowerCase_char_def upt_conv_Cons)

lemma find_node_Some:
  "find_node nodes k = Some r \<Longrightarrow> r < length nodes \<and> id' (nodes ! r) = k"
  by (auto simp: find_node_def find_Some_iff)

lemma find_node_None: "find_node nodes k = None \<longleftrightarrow> k \<notin> id' ` set nodes"
proof -
  have "k \<in> id' ` set nodes \<longleftrightarrow> (\<exists>r<length nodes. id' (nodes ! r) = k)"
    by (metis (no_types, lifting) image_iff in_set_conv_nth)
  then show ?thesis
    by (auto simp: find_node_def find_None_iff)
qed

lemma find_node_cases:
  obtains "k \<notin> id' ` set nodes" "find_node nodes k = None"
  | r where "k \<in> id' ` set nodes" "find_node nodes k = Some r" "r < length nodes" "id' (nodes ! r) = k"
proof (cases "find_node nodes k")
  case None
  then show ?thesis using that(1) by (simp add: find_node_None)
next
  case (Some r)
  then have "find_node nodes k \<noteq> None" by simp
  then have "k \<in> id' ` set nodes" by (simp add: find_node_None)
  with Some find_node_Some [OF Some] show ?thesis using that(2) by blast
qed

lemma push_link_append: "push_link nodes step depId links = links @ links_of_dep nodes step depId"
  by (simp add: push_link_def links_of_dep_def split: option.splits)

lemma fold_push_link:
  "fold (push_link nodes step) deps links =
   links @ concat (map (links_of_dep nodes step) deps)"
  by (induction deps arbitrary: links) (simp_all add: push_link_append)

lemma fold_steps_links:
  "fold (\<lambda>step links. fold (push_link nodes step) (dependencies step) links) steps links =
   links @ concat (map (\<lambda>step. concat (map (links_of_dep nodes step) (dependencies step))) steps)"
  by (induction steps arbitrary: links) (simp_all add: fold_push_link)

lemma build_links_concat:
  "build_links steps nodes =
   concat (map (\<lambda>step. concat (map (links_of_dep nodes step) (dependencies step))) steps)"
  by (simp add: build_links_def fold_steps_links)

lemma links_of_dep_resolved:
  assumes "id' step \<in> id' ` set nodes"
  shows "map (\<lambda>l. (id' (nodes ! source l), id' (nodes ! target l))) (links_of_dep nodes step d) =
         (if d \<in> id' ` set nodes then [(d, id' step)] else [])"
proof -
  from assms have "find_node nodes (id' step) \<noteq> None"
    by (simp add: find_node_None)
  then obtain t where t0: "find_node nodes (id' step) = Some t"
    by auto
  note t = t0 find_node_Some [OF t0, THEN conjunct2]
  show ?thesis
  proof (rule find_node_cases [of d nodes])
    assume "d \<notin> id' ` set nodes" "find_node nodes d = None"
    then show ?thesis by (simp add: links_of_dep_def push_link_def)
  next
    fix r assume "d \<in> id' ` set nodes" "find_node nodes d = Some r" "r < length nodes" "id' (nodes ! r) = d"
    with t show ?thesis by (simp add: links_of_dep_def push_link_def)
  qed
qed

lemma links_of_dep_refs:
  "l \<in> set (links_of_dep nodes step d) \<Longrightarrow>
   find_node nodes d = Some (source l) \<and> find_node nodes (id' step) = Some (target l)"
  by (auto simp: links_of_dep_def push_link_def split: option.splits)

lemma build_links_ids:
  assumes "id' ` set steps \<subseteq> id' ` set nodes"
  shows "map (\<lambda>l. (id' (nodes ! source l), id' (nodes ! target l))) (build_links steps nodes) =
         concat (map (\<lambda>step. map (\<lambda>d. (d, id' step))
                                (filter (\<lambda>d. d \<in> id' ` set nodes) (dependencies step))) steps)"
proof -
  have inner: "map (\<lambda>l. (id' (nodes ! source l), id' (nodes ! target l)))
                 (concat (map (links_of_dep nodes step) deps)) =
               map (\<lambda>d. (d, id' step)) (filter (\<lambda>d. d \<in> id' ` set nodes) deps)"
    if "id' step \<in> id' ` set nodes" for step deps
    by (induction deps) (simp_all add: links_of_dep_resolved [OF that])
  have "map (\<lambda>l. (id' (nodes ! source l), id' (nodes ! target l)))
          (concat (map (\<lambda>step. concat (map (links_of_dep nodes step) (dependencies step))) ss)) =
        concat (map (\<lambda>step. map (\<lambda>d. (d, id' step))
                                (filter (\<lambda>d. d \<in> id' ` set nodes) (dependencies step))) ss)"
    if "id' ` set ss \<subseteq> id' ` set nodes" for ss
    using that by (induction ss) (simp_all add: inner)
  with assms show ?thesis by (simp add: build_links_concat)
qed

lemma build_links_refs:
  assumes "l \<in> set (build_links steps nodes)"
  shows "\<exists>step\<in>set steps. \<exists>d\<in>set (dependencies step).
           find_node nodes d = Some (source l) \<and> find_node nodes (id' step) = Some (target l)"
  using assms by (auto simp: build_links_concat dest: links_of_dep_refs)

lemma build_links_member:
  assumes "step \<in> set steps" "d \<in> set (dependencies step)"
    and "find_node nodes d = Some s" "find_node nodes (id' step) = Some t"
  shows "\<lparr>source = s, target = t\<rparr> \<in> set (build_links steps nodes)"
proof -
  have "\<lparr>source = s, target = t\<rparr> \<in> set (links_of_dep nodes step d)"
    using assms(3,4) by (simp add: links_of_dep_def push_link_def)
  with assms(1,2) show ?thesis by (auto simp: build_links_concat)
qed

lemma final_nodes_length [simp]: "length (final_nodes cw steps sp) = length steps"
  using final_nodes_ids [of cw steps sp] by (metis length_map)

lemma final_nodes_id_set: "id' ` set (final_nodes cw steps sp) = id' ` set steps"
  using final_nodes_ids [of cw steps sp] by (metis set_map)

lemma render_Some:
  assumes "steps \<noteq> []"
  shows "\<exists>sc. render True cw steps sp = Inr (Some sc)
           \<and> scene_nodes sc = final_nodes cw steps sp
           \<and> scene_links sc = build_links steps (final_nodes cw steps sp)"
  using assms by (simp add: render_eq)

lemma pairs_distinct:
  assumes "distinct (map id' steps)" and "\<forall>s\<in>set steps. distinct (dependencies s)"
  shows "distinct (concat (map (\<lambda>step. map (\<lambda>d. (d, id' step))
                                      (filter P (dependencies step))) (steps :: PipelineStep list)))"
  using assms
proof (induction steps)
  case Nil
  then show ?case by simp
next
  case (Cons s ss)
  have "distinct (map (\<lambda>d. (d, id' s)) (filter P (dependencies s)))"
    using Cons.prems by (simp add: distinct_map inj_on_def)
  moreover have "distinct (concat (map (\<lambda>step. map (\<lambda>d. (d, id' step))
                                      (filter P (dependencies step))) ss))"
    using Cons by simp
  moreover have "set (map (\<lambda>d. (d, id' s)) (filter P (dependencies s))) \<inter>
                 set (concat (map (\<lambda>step. map (\<lambda>d. (d, id' step))
                                      (filter P (dependencies step))) ss)) = {}"
    using Cons.prems(1) by auto
  ultimately show ?case by simp
qed

lemma final_nodes_nth:
  assumes "i < length steps"
  shows "final_nodes cw steps sp ! i =
         (let nodes = build_nodes steps; layers = build_layers nodes;
              p = placed (resolve_width cw) (canvas_height layers) layers (nodes ! i) i
          in case sp of
               None \<Rightarrow> p
             | Some positions \<Rightarrow>
                 (case get_property positions (id' (steps ! i)) of
                    Undefined \<Rightarrow> p
                  | Own saved \<Rightarrow> p\<lparr>x := Some (fst saved), y := Some (snd saved)\<rparr>
                  | Inherited \<Rightarrow> p\<lparr>x := None, y := None\<rparr>))"
  using assms
  by (simp add: final_nodes_def apply_saved_def Let_def build_nodes_def
      split: option.splits js_property.splits)

lemma placed_xy: "\<exists>vx vy. x (placed w h ls n r) = Some vx \<and> y (placed w h ls n r) = Some vy"
  by (simp add: placed_def)

lemma final_nodes_defined:
  assumes "i < length steps"
    and "\<forall>positions. sp = Some positions \<longrightarrow> get_property positions (id' (steps ! i)) \<noteq> Inherited"
  shows "\<exists>vx vy. x (final_nodes cw steps sp ! i) = Some vx \<and> y (final_nodes cw steps sp ! i) = Some vy"
  using placed_xy assms(2) unfolding final_nodes_nth [OF assms(1)] Let_def
  by (auto split: option.splits js_property.splits)

lemma updateLinks_d_eq: "updateLinks_d nodes l = linkSelection_d nodes l"
  by (simp add: updateLinks_d_def linkSelection_d_def)

lemma linkSelection_d_Some:
  assumes "x (nodes ! source l) = Some sx" "y (nodes ! source l) = Some sy"
    and "x (nodes ! target l) = Some tx" "y (nodes ! target l) = Some ty"
  shows "linkSelection_d nodes l =
         Some \<lparr>path_M = (sx, sy),
               path_C1 = (sx + sqrt ((tx - sx) * (tx - sx) + (ty - sy) * (ty - sy)) / 2, sy),
               path_C2 = (tx - sqrt ((tx - sx) * (tx - sx) + (ty - sy) * (ty - sy)) / 2, ty),
               path_end = (tx, ty)\<rparr>"
  using assms by (simp add: linkSelection_d_def Let_def)

lemma linkSelection_d_ends:
  assumes "linkSelection_d nodes l = Some p"
  shows "x (nodes ! source l) = Some (fst (path_M p)) \<and> y (nodes ! source l) = Some (snd (path_M p))
       \<and> x (nodes ! target l) = Some (fst (path_end p)) \<and> y (nodes ! target l) = Some (snd (path_end p))"
  using assms by (auto simp: linkSelection_d_def Let_def split: option.splits)

lemma drag_nodes:
  "scene_nodes (drag d ev sc) =
   (scene_nodes sc)[d := (scene_nodes sc ! d)\<lparr>x := Some (fst ev), y := Some (snd ev)\<rparr>]"
  by (simp add: drag_def Let_def)

lemma drag_links [simp]: "scene_links (drag d ev sc) = scene_links sc"
  by (simp add: drag_def Let_def)

lemma drag_paths:
  "link_paths (drag d ev sc) = map (updateLinks_d (scene_nodes (drag d ev sc))) (scene_links sc)"
  by (simp add: drag_def Let_def)

lemma drag_cache:
  "d < length (scene_nodes sc) \<Longrightarrow>
   positionsRef (drag d ev sc) =
   (positionsRef sc)(id' (scene_nodes sc ! d) \<mapsto> (Some (fst ev), Some (snd ev)))"
  by (simp add: drag_def Let_def)

lemma constrain_in_extent:
  "fst scaleExtent \<le> d3_constrain_scale scaleExtent k \<and> d3_constrain_scale scaleExtent k \<le> snd scaleExtent"
  by (simp add: d3_constrain_scale_def scaleExtent_def)

lemma fold_zoom_scale:
  assumes "g_scale sc = None \<or> (\<exists>k. g_scale sc = Some k \<and> fst scaleExtent \<le> k \<and> k \<le> snd scaleExtent)"
  shows "fst scaleExtent \<le> rendered_scale (fold zoom_gesture requests sc)
       \<and> rendered_scale (fold zoom_gesture requests sc) \<le> snd scaleExtent"
  using assms
proof (induction requests arbitrary: sc)
  case Nil
  then show ?case by (auto simp: rendered_scale_def scaleExtent_def)
next
  case (Cons r rs)
  have "g_scale (zoom_gesture r sc) = Some (d3_constrain_scale scaleExtent r)"
    by (simp add: zoom_gesture_def)
  with constrain_in_extent [of r] Cons.IH [of "zoom_gesture r sc"] show ?case
    by simp
qed

lemma indexOf_inj:
  assumes "distinct xs" "a \<in> set xs" "b \<in> set xs" "indexOf xs a = indexOf xs b"
  shows "a = b"
proof -
  from assms(2) obtain i where i: "i < length xs" "xs ! i = a"
    by (auto simp: in_set_conv_nth)
  from assms(3) obtain j where j: "j < length xs" "xs ! j = b"
    by (auto simp: in_set_conv_nth)
  have "indexOf xs a = int i" "indexOf xs b = int j"
    using indexOf_nth [OF assms(1) i(1)] indexOf_nth [OF assms(1) j(1)] i(2) j(2) by simp_all
  with assms(4) have "i = j" by simp
  with i j show ?thesis by simp
qed

text \<open>The position that default placement gives to the node object \<open>r\<close> of a step list.\<close>

lemma placed_build:
  assumes "r < length steps"
    and "nodes = build_nodes steps" and "layers = build_layers nodes" and "l = layer (nodes ! r)"
  shows "l < 3 \<and> r \<in> set (layers ! l) \<and> distinct (layers ! l)
       \<and> x (placed w h layers (nodes ! r) r) = Some (paddingX + real l * ((w - 2 * paddingX) / 2))
       \<and> y (placed w h layers (nodes ! r) r) =
           Some (paddingY + (h - 2 * paddingY) / real (length (layers ! l) + 1)
                   * real_of_int (indexOf (layers ! l) r + 1))"
proof -
  have l: "l < 3"
    using assms by (simp add: build_nodes_def layer_of_name_lt)
  have b: "layers ! l = filter_layer nodes l"
    using l assms(3) by (simp add: build_layers_nth)
  have "r \<in> set (filter_layer nodes l)"
    using assms by (simp add: filter_layer_set)
  then have mem: "r \<in> set (layers ! l)"
    by (simp only: b)
  have dist: "distinct (layers ! l)"
    by (simp only: b filter_layer_distinct)
  have xy: "x (placed w h layers (nodes ! r) r) = Some (paddingX + real l * ((w - 2 * paddingX) / 2))
       \<and> y (placed w h layers (nodes ! r) r) =
           Some (paddingY + (h - 2 * paddingY) / real (length (layers ! l) + 1)
                   * real_of_int (indexOf (layers ! l) r + 1))"
    by (simp add: placed_def assms(4) mult.commute)
  from l mem dist xy show ?thesis by blast
qed

lemma placed_build_distinct:
  assumes "r < length steps" and "r' < length steps" and "r \<noteq> r'"
    and "nodes = build_nodes steps" and "layers = build_layers nodes"
    and "w \<noteq> 2 * paddingX" and "h \<noteq> 2 * paddingY"
  shows "(x (placed w h layers (nodes ! r) r), y (placed w h layers (nodes ! r) r)) \<noteq>
         (x (placed w h layers (nodes ! r') r'), y (placed w h layers (nodes ! r') r'))"
proof
  let ?l = "layer (nodes ! r)" and ?l' = "layer (nodes ! r')"
  assume eq: "(x (placed w h layers (nodes ! r) r), y (placed w h layers (nodes ! r) r)) =
         (x (placed w h layers (nodes ! r') r'), y (placed w h layers (nodes ! r') r'))"
  note a = placed_build [OF assms(1) assms(4) assms(5) refl, of w h]
  note b = placed_build [OF assms(2) assms(4) assms(5) refl, of w h]
  from eq a b have "real ?l * ((w - 2 * paddingX) / 2) = real ?l' * ((w - 2 * paddingX) / 2)"
    by simp
  with assms(6) have same: "?l = ?l'"
    by simp
  let ?b = "layers ! ?l"
  from eq a b same have
    "(h - 2 * paddingY) / real (length ?b + 1) * real_of_int (indexOf ?b r + 1) =
     (h - 2 * paddingY) / real (length ?b + 1) * real_of_int (indexOf ?b r' + 1)"
    by simp
  moreover have "(h - 2 * paddingY) / real (length ?b + 1) \<noteq> 0"
    using assms(7) by simp
  ultimately have "indexOf ?b r = indexOf ?b r'"
    by simp
  moreover have "distinct ?b" "r \<in> set ?b" "r' \<in> set ?b"
    using a b same by simp_all
  ultimately have "r = r'"
    by (intro indexOf_inj [of ?b r r'])
  with assms(3) show False by simp
qed

section \<open>The claims\<close>

text \<open>
  Claim C1. The layer of a node is a function of the lower-cased display name of its
  step alone: 0 when the name contains "fetch", "read" or "source"; otherwise 2 when it
  contains "store", "load", "sink" or "postgre"; otherwise 1. The ingestion keywords are
  tested first, and two names that differ only in casing get the same layer.
\<close>

theorem layer_classification:
  "layer_of_name nm =
     (if sublist ''fetch'' (toLowerCase nm) \<or> sublist ''read'' (toLowerCase nm)
         \<or> sublist ''source'' (toLowerCase nm) then 0
      else if sublist ''store'' (toLowerCase nm) \<or> sublist ''load'' (toLowerCase nm)
         \<or> sublist ''sink'' (toLowerCase nm) \<or> sublist ''postgre'' (toLowerCase nm) then 2
      else 1)
   \<and> map layer (build_nodes steps) = map (\<lambda>s. layer_of_name (name s)) steps
   \<and> layer_of_name (toLowerCase nm) = layer_of_name nm
   \<and> (toLowerCase a = toLowerCase b \<longrightarrow> layer_of_name a = layer_of_name b)"
proof -
  have rule: "layer_of_name n =
     (if sublist ''fetch'' (toLowerCase n) \<or> sublist ''read'' (toLowerCase n)
         \<or> sublist ''source'' (toLowerCase n) then 0
      else if sublist ''store'' (toLowerCase n) \<or> sublist ''load'' (toLowerCase n)
         \<or> sublist ''sink'' (toLowerCase n) \<or> sublist ''postgre'' (toLowerCase n) then 2
      else 1)" for n
    unfolding layer_of_name_def Let_def includes'_sublist ..
  have nodes: "map layer (build_nodes steps) = map (\<lambda>s. layer_of_name (name s)) steps"
    by (simp add: build_nodes_def)
  have lower: "layer_of_name (toLowerCase nm) = layer_of_name nm"
    by (simp only: rule [of "toLowerCase nm"] rule [of nm] toLowerCase_idem)
  have casing: "toLowerCase a = toLowerCase b \<longrightarrow> layer_of_name a = layer_of_name b"
    by (simp only: rule [of a] rule [of b]) simp
  from rule [of nm] nodes lower casing show ?thesis
    by (intro conjI)
qed

theorem layer_classification_witness:
  "toLowerCase ''Fetch Readings'' = toLowerCase ''FETCH readings''
   \<and> layer_of_name ''Fetch Readings'' = layer_of_name ''FETCH readings''
   \<and> layer_of_name ''FETCH readings'' = 0
   \<and> layer_of_name ''Store Results'' = 2
   \<and> layer_of_name ''Clean Data'' = 1
   \<and> layer_of_name ''Load Source Table'' = 0"
proof -
  have h: "toLowerCase ''Fetch Readings'' = toLowerCase ''FETCH readings''"
    by (simp add: toLowerCase_def toLowerCase_char_def)
  have "layer_of_name ''Fetch Readings'' = layer_of_name ''FETCH readings''"
    using layer_classification [of "''Fetch Readings''" "[]" "''Fetch Readings''" "''FETCH readings''"] h
    by blast
  moreover have "layer_of_name ''FETCH readings'' = 0" "layer_of_name ''Store Results'' = 2"
    "layer_of_name ''Clean Data'' = 1" "layer_of_name ''Load Source Table'' = 0"
    by (simp_all add: layer_of_name_def toLowerCase_def toLowerCase_char_def)
  ultimately show ?thesis using h by simp
qed

text \<open>
  Claim C6. The ids of the derived nodes are the ids of the steps, in the same order:
  one node for each step, none left out, none added, and node ids are distinct exactly
  when step ids are. The nodes a run of the effect leaves behind depend on the arguments
  of that run only, and carry the same ids.
\<close>

theorem node_ids_mirror_step_ids:
  "map id' (build_nodes steps) = map id' steps
   \<and> id' ` set (build_nodes steps) = id' ` set steps
   \<and> distinct (map id' (build_nodes steps)) = distinct (map id' steps)
   \<and> (\<forall>sc. render m cw steps sp = Inr (Some sc) \<longrightarrow>
         map id' (scene_nodes sc) = map id' steps
         \<and> id' ` set (scene_nodes sc) = id' ` set steps
         \<and> distinct (map id' (scene_nodes sc)) = distinct (map id' steps))"
proof -
  have a: "map id' (build_nodes steps) = map id' steps"
    by (rule build_nodes_ids)
  have b: "id' ` set ns = id' ` set steps" if "map id' ns = map id' steps" for ns :: "Node list"
    using that by (metis set_map)
  have c: "map id' (scene_nodes sc) = map id' steps" if "render m cw steps sp = Inr (Some sc)" for sc
    using that by (auto simp: render_eq final_nodes_ids split: if_splits)
  show ?thesis using a b [OF a] b [OF c] c by simp
qed

theorem node_ids_mirror_step_ids_witness:
  "\<exists>sc. render True None
          [\<lparr>id' = ''A'', name = ''Fetch Readings'', description = [], dependencies = [],
            status = None, type' = None\<rparr>,
           \<lparr>id' = ''B'', name = ''Store Results'', description = [], dependencies = [''A''],
            status = None, type' = None\<rparr>] None = Inr (Some sc)
        \<and> map id' (scene_nodes sc) = [''A'', ''B'']"
proof -
  let ?steps = "[\<lparr>id' = ''A'', name = ''Fetch Readings'', description = [], dependencies = [],
            status = None, type' = None\<rparr>,
           \<lparr>id' = ''B'', name = ''Store Results'', description = [], dependencies = [''A''],
            status = None, type' = None\<rparr>]"
  obtain sc where sc: "render True None ?steps None = Inr (Some sc)"
    by (simp add: render_eq)
  have "map id' (scene_nodes sc) = map id' ?steps"
    using node_ids_mirror_step_ids [of ?steps True None None] sc by blast
  with sc show ?thesis by simp
qed

text \<open>
  Claim C4. Default placement succeeds on the nodes of every step list, for every width.
  Every node is in the bucket of its layer. The node at index \<open>j\<close> of the bucket of
  layer \<open>l\<close> gets \<open>x = paddingX + l * ((w - 2 * paddingX) / 2)\<close>, which is the left
  margin for layer 0, the middle for layer 1 and the right margin for layer 2, and
  \<open>y = paddingY + (j + 1) * ((h - 2 * paddingY) / (size + 1))\<close>, which lies strictly
  between the top and the bottom margin. The canvas height \<open>h\<close> is the larger of
  \<open>baseHeight\<close> and the largest bucket size times \<open>perNodeHeight\<close>, and it is the
  height the effect sets.
\<close>

theorem default_placement_columns_and_slots:
  "let nodes = build_nodes steps; layers = build_layers nodes;
       w = resolve_width cw; h = canvas_height layers
   in \<exists>pl. default_placement w h layers nodes = Inr pl \<and> length pl = length steps
        \<and> (\<forall>r<length steps. \<exists>j<length (layers ! layer (nodes ! r)). layers ! layer (nodes ! r) ! j = r)
        \<and> (\<forall>l<3. \<forall>j<length (layers ! l).
              layers ! l ! j < length steps
              \<and> layer (pl ! (layers ! l ! j)) = l
              \<and> x (pl ! (layers ! l ! j)) = Some (paddingX + real l * ((w - 2 * paddingX) / 2))
              \<and> x (pl ! (layers ! l ! j)) = Some (if l = 0 then paddingX else if l = 1 then w / 2 else w - paddingX)
              \<and> y (pl ! (layers ! l ! j)) =
                  Some (paddingY + real (j + 1) * ((h - 2 * paddingY) / real (length (layers ! l) + 1)))
              \<and> paddingY < paddingY + real (j + 1) * ((h - 2 * paddingY) / real (length (layers ! l) + 1))
              \<and> paddingY + real (j + 1) * ((h - 2 * paddingY) / real (length (layers ! l) + 1)) < h - paddingY)
        \<and> h = max baseHeight (real (Max (set (map length layers))) * perNodeHeight)
        \<and> (\<forall>sc. render m cw steps sp = Inr (Some sc) \<longrightarrow> svgHeight sc = h)"
proof -
  define nodes where "nodes = build_nodes steps"
  define layers where "layers = build_layers nodes"
  define w where "w = resolve_width cw"
  define h where "h = canvas_height layers"
  define pl where "pl = map (\<lambda>r. placed w h layers (nodes ! r) r) [0..<length steps]"
  have len: "length nodes = length steps"
    by (simp add: nodes_def)
  have run: "default_placement w h layers nodes = Inr pl"
    unfolding pl_def layers_def nodes_def by (rule placement_of_build)
  have bucket: "\<exists>j<length (layers ! layer (nodes ! r)). layers ! layer (nodes ! r) ! j = r"
    if "r < length steps" for r
  proof -
    have "layer (nodes ! r) < 3"
      using that len by (simp add: nodes_def build_nodes_def layer_of_name_lt)
    then have "r \<in> set (layers ! layer (nodes ! r))"
      using that len by (simp add: layers_def build_layers_nth filter_layer_set)
    then show ?thesis by (simp add: in_set_conv_nth)
  qed
  have hgt: "2 * paddingY < h"
    using canvas_height_ge [of layers] by (simp add: h_def baseHeight_def paddingY_def)
  have slot: "layers ! l ! j < length steps
              \<and> layer (pl ! (layers ! l ! j)) = l
              \<and> x (pl ! (layers ! l ! j)) = Some (paddingX + real l * ((w - 2 * paddingX) / 2))
              \<and> x (pl ! (layers ! l ! j)) = Some (if l = 0 then paddingX else if l = 1 then w / 2 else w - paddingX)
              \<and> y (pl ! (layers ! l ! j)) =
                  Some (paddingY + real (j + 1) * ((h - 2 * paddingY) / real (length (layers ! l) + 1)))
              \<and> paddingY < paddingY + real (j + 1) * ((h - 2 * paddingY) / real (length (layers ! l) + 1))
              \<and> paddingY + real (j + 1) * ((h - 2 * paddingY) / real (length (layers ! l) + 1)) < h - paddingY"
    if l: "l < 3" and j: "j < length (layers ! l)" for l j
  proof -
    let ?b = "layers ! l"
    let ?r = "?b ! j"
    have b: "?b = filter_layer nodes l"
      using l by (simp add: layers_def build_layers_nth)
    have "?r \<in> set (filter_layer nodes l)"
      using j b by simp
    then have r: "?r < length steps" "layer (nodes ! ?r) = l"
      using len by (simp_all add: filter_layer_set)
    have idx: "indexOf ?b ?r = int j"
      using j b filter_layer_distinct [of nodes l] by (simp add: indexOf_nth)
    have node: "pl ! ?r = placed w h layers (nodes ! ?r) ?r"
      using r by (simp add: pl_def)
    have xv: "x (pl ! ?r) = Some (paddingX + real l * ((w - 2 * paddingX) / 2))"
      using r by (simp add: node placed_def)
    have col: "paddingX + real l * ((w - 2 * paddingX) / 2) =
               (if l = 0 then paddingX else if l = 1 then w / 2 else w - paddingX)"
    proof -
      from l consider "l = 0" | "l = 1" | "l = 2" by linarith
      then show ?thesis by cases (simp_all add: field_simps)
    qed
    have yv: "y (pl ! ?r) = Some (paddingY + real (j + 1) * ((h - 2 * paddingY) / real (length ?b + 1)))"
      using r idx by (simp add: node placed_def mult.commute algebra_simps)
    have pos: "0 < (h - 2 * paddingY) / real (length ?b + 1)"
      using hgt by simp
    have "0 < real (j + 1) * ((h - 2 * paddingY) / real (length ?b + 1))"
      using pos by (intro mult_pos_pos) simp_all
    then have lo: "paddingY < paddingY + real (j + 1) * ((h - 2 * paddingY) / real (length ?b + 1))"
      by linarith
    have "real (j + 1) * ((h - 2 * paddingY) / real (length ?b + 1)) <
          real (length ?b + 1) * ((h - 2 * paddingY) / real (length ?b + 1))"
      using j pos by (intro mult_strict_right_mono) simp_all
    also have "\<dots> = h - 2 * paddingY"
      by simp
    finally have hi: "paddingY + real (j + 1) * ((h - 2 * paddingY) / real (length ?b + 1)) < h - paddingY"
      by simp
    show ?thesis using r(1) r(2) node xv col yv lo hi by simp
  qed
  have hmax: "h = max baseHeight (real (Max (set (map length layers))) * perNodeHeight)"
    unfolding h_def layers_def by (rule canvas_height_build)
  have sv: "svgHeight sc = h" if "render m cw steps sp = Inr (Some sc)" for sc
    using that by (auto simp: render_eq h_def layers_def nodes_def split: if_splits)
  have A: "length pl = length steps"
    by (simp add: pl_def)
  have B: "\<forall>r<length steps. \<exists>j<length (layers ! layer (nodes ! r)). layers ! layer (nodes ! r) ! j = r"
    using bucket by blast
  have C: "\<forall>l<3. \<forall>j<length (layers ! l).
              layers ! l ! j < length steps
              \<and> layer (pl ! (layers ! l ! j)) = l
              \<and> x (pl ! (layers ! l ! j)) = Some (paddingX + real l * ((w - 2 * paddingX) / 2))
              \<and> x (pl ! (layers ! l ! j)) = Some (if l = 0 then paddingX else if l = 1 then w / 2 else w - paddingX)
              \<and> y (pl ! (layers ! l ! j)) =
                  Some (paddingY + real (j + 1) * ((h - 2 * paddingY) / real (length (layers ! l) + 1)))
              \<and> paddingY < paddingY + real (j + 1) * ((h - 2 * paddingY) / real (length (layers ! l) + 1))
              \<and> paddingY + real (j + 1) * ((h - 2 * paddingY) / real (length (layers ! l) + 1)) < h - paddingY"
    using slot by blast
  have D: "\<forall>sc. render m cw steps sp = Inr (Some sc) \<longrightarrow> svgHeight sc = h"
    using sv by blast
  have "\<exists>pl. default_placement w h layers nodes = Inr pl \<and> length pl = length steps
        \<and> (\<forall>r<length steps. \<exists>j<length (layers ! layer (nodes ! r)). layers ! layer (nodes ! r) ! j = r)
        \<and> (\<forall>l<3. \<forall>j<length (layers ! l).
              layers ! l ! j < length steps
              \<and> layer (pl ! (layers ! l ! j)) = l
              \<and> x (pl ! (layers ! l ! j)) = Some (paddingX + real l * ((w - 2 * paddingX) / 2))
              \<and> x (pl ! (layers ! l ! j)) = Some (if l = 0 then paddingX else if l = 1 then w / 2 else w - paddingX)
              \<and> y (pl ! (layers ! l ! j)) =
                  Some (paddingY + real (j + 1) * ((h - 2 * paddingY) / real (length (layers ! l) + 1)))
              \<and> paddingY < paddingY + real (j + 1) * ((h - 2 * paddingY) / real (length (layers ! l) + 1))
              \<and> paddingY + real (j + 1) * ((h - 2 * paddingY) / real (length (layers ! l) + 1)) < h - paddingY)
        \<and> h = max baseHeight (real (Max (set (map length layers))) * perNodeHeight)
        \<and> (\<forall>sc. render m cw steps sp = Inr (Some sc) \<longrightarrow> svgHeight sc = h)"
    by (rule exI [of _ pl]) (intro conjI run A B C hmax D)
  then show ?thesis
    unfolding Let_def nodes_def layers_def w_def h_def .
qed

theorem default_placement_columns_and_slots_witness:
  "\<exists>pl. default_placement 1000 320 [ [0, 2], [1], []]
          (build_nodes
            [\<lparr>id' = ''A'', name = ''Fetch Readings'', description = [], dependencies = [],
              status = None, type' = None\<rparr>,
             \<lparr>id' = ''B'', name = ''Clean Data'', description = [], dependencies = [''A''],
              status = None, type' = None\<rparr>,
             \<lparr>id' = ''C'', name = ''Read Table'', description = [], dependencies = [''B''],
              status = None, type' = None\<rparr>]) = Inr pl
        \<and> x (pl ! 2) = Some 100 \<and> y (pl ! 2) = Some (50 + 2 * (220 / 3))
        \<and> x (pl ! 1) = Some 500 \<and> y (pl ! 1) = Some 160"
proof -
  let ?steps = "[\<lparr>id' = ''A'', name = ''Fetch Readings'', description = [], dependencies = [],
              status = None, type' = None\<rparr>,
             \<lparr>id' = ''B'', name = ''Clean Data'', description = [], dependencies = [''A''],
              status = None, type' = None\<rparr>,
             \<lparr>id' = ''C'', name = ''Read Table'', description = [], dependencies = [''B''],
              status = None, type' = None\<rparr>]"
  have h: "canvas_height [ [0, 2], [1], []] = 320"
    by (simp add: canvas_height_def maxLayerSize_def baseHeight_def perNodeHeight_def)
  have w: "resolve_width (Some 1000) = 1000"
    by (simp add: resolve_width_def)
  note T = default_placement_columns_and_slots [of ?steps "Some 1000" True None,
      unfolded Let_def ex_layers h w]
  let ?L = "[ [0, 2], [1], []] :: nat list list"
  from T obtain pl where run: "default_placement 1000 320 ?L (build_nodes ?steps) = Inr pl"
    and slots: "\<forall>l<3. \<forall>j<length (?L ! l).
              ?L ! l ! j < length ?steps
              \<and> layer (pl ! (?L ! l ! j)) = l
              \<and> x (pl ! (?L ! l ! j)) = Some (paddingX + real l * ((1000 - 2 * paddingX) / 2))
              \<and> x (pl ! (?L ! l ! j)) = Some (if l = 0 then paddingX else if l = 1 then 1000 / 2 else 1000 - paddingX)
              \<and> y (pl ! (?L ! l ! j)) =
                  Some (paddingY + real (j + 1) * ((320 - 2 * paddingY) / real (length (?L ! l) + 1)))
              \<and> paddingY < paddingY + real (j + 1) * ((320 - 2 * paddingY) / real (length (?L ! l) + 1))
              \<and> paddingY + real (j + 1) * ((320 - 2 * paddingY) / real (length (?L ! l) + 1)) < 320 - paddingY"
    apply (elim exE conjE)
    apply (rule that)
     apply assumption
    apply assumption
    done
  have s0: "(0::nat) < 3" and s1: "(1::nat) < 3" by simp_all
  have j0: "(1::nat) < length (?L ! 0)" by simp
  have j1: "(0::nat) < length (?L ! 1)" by simp
  have a: "x (pl ! 2) = Some 100 \<and> y (pl ! 2) = Some (50 + 2 * (220 / 3))"
    using slots [rule_format, OF s0 j0] by (simp add: paddingX_def paddingY_def)
  have b: "x (pl ! 1) = Some 500 \<and> y (pl ! 1) = Some 160"
    using slots [rule_format, OF s1 j1] by (simp add: paddingX_def paddingY_def)
  from run a b show ?thesis by blast
qed

text \<open>
  Claim C2, as the code has it. The path of a link runs from the position of its source
  node to the position of its target node; with \<open>dr\<close> the Euclidean distance between
  the two, the first control point is the source moved by \<open>dr / 2\<close> along the horizontal
  coordinate, \<open>(sx + dr / 2, sy)\<close>, and the second is the target moved back by
  \<open>dr / 2\<close> along the horizontal coordinate, \<open>(tx - dr / 2, ty)\<close>. The callback of
  \<open>updateLinks\<close> computes the same path as the callback of the first draw, so the paths
  after the effect and after every drag event follow this one rule.
\<close>

theorem link_path_control_points:
  assumes "x (nodes ! source l) = Some sx" and "y (nodes ! source l) = Some sy"
    and "x (nodes ! target l) = Some tx" and "y (nodes ! target l) = Some ty"
  shows "linkSelection_d nodes l =
           Some \<lparr>path_M = (sx, sy),
                 path_C1 = (sx + sqrt ((tx - sx) * (tx - sx) + (ty - sy) * (ty - sy)) / 2, sy),
                 path_C2 = (tx - sqrt ((tx - sx) * (tx - sx) + (ty - sy) * (ty - sy)) / 2, ty),
                 path_end = (tx, ty)\<rparr>
         \<and> updateLinks_d nodes l = linkSelection_d nodes l
         \<and> (\<forall>sc. render m cw steps sp = Inr (Some sc) \<longrightarrow>
               link_paths sc = map (linkSelection_d (scene_nodes sc)) (scene_links sc))
         \<and> link_paths (drag d ev sc') =
             map (linkSelection_d (scene_nodes (drag d ev sc'))) (scene_links (drag d ev sc'))"
proof -
  have a: "\<forall>sc. render m cw steps sp = Inr (Some sc) \<longrightarrow>
               link_paths sc = map (linkSelection_d (scene_nodes sc)) (scene_links sc)"
    by (auto simp: render_eq split: if_splits)
  have b: "link_paths (drag d ev sc') =
             map (linkSelection_d (scene_nodes (drag d ev sc'))) (scene_links (drag d ev sc'))"
    by (simp add: drag_def Let_def updateLinks_d_eq)
  from linkSelection_d_Some [OF assms] updateLinks_d_eq a b show ?thesis by blast
qed

theorem link_path_control_points_witness:
  "linkSelection_d
     [\<lparr>id' = ''A'', name = ''Fetch'', description = [], dependencies = [], status = None,
       type' = None, layer = 0, x = Some 10, y = Some 20\<rparr>,
      \<lparr>id' = ''B'', name = ''Store'', description = [], dependencies = [''A''], status = None,
       type' = None, layer = 2, x = Some 16, y = Some 28\<rparr>]
     \<lparr>source = 0, target = 1\<rparr>
   = Some \<lparr>path_M = (10, 20), path_C1 = (15, 20), path_C2 = (11, 28), path_end = (16, 28)\<rparr>
   \<and> updateLinks_d
     [\<lparr>id' = ''A'', name = ''Fetch'', description = [], dependencies = [], status = None,
       type' = None, layer = 0, x = Some 10, y = Some 20\<rparr>,
      \<lparr>id' = ''B'', name = ''Store'', description = [], dependencies = [''A''], status = None,
       type' = None, layer = 2, x = Some 16, y = Some 28\<rparr>]
     \<lparr>source = 0, target = 1\<rparr>
   = Some \<lparr>path_M = (10, 20), path_C1 = (15, 20), path_C2 = (11, 28), path_end = (16, 28)\<rparr>"
proof -
  let ?ns = "[\<lparr>id' = ''A'', name = ''Fetch'', description = [], dependencies = [], status = None,
       type' = None, layer = 0, x = Some 10, y = Some 20\<rparr>,
      \<lparr>id' = ''B'', name = ''Store'', description = [], dependencies = [''A''], status = None,
       type' = None, layer = 2, x = Some 16, y = Some 28\<rparr>]"
  let ?l = "\<lparr>source = 0, target = 1\<rparr>"
  have h: "x (?ns ! source ?l) = Some 10" "y (?ns ! source ?l) = Some 20"
    "x (?ns ! target ?l) = Some 16" "y (?ns ! target ?l) = Some 28"
    by simp_all
  from link_path_control_points [OF h] show ?thesis by simp
qed

text \<open>
  Claim C2 as stated, with the offset along the vertical coordinate, fails: for a source
  at \<open>(0, 0)\<close> and a target at \<open>(3, 4)\<close>, at distance 5, the control points are
  \<open>(5/2, 0)\<close> and \<open>(1/2, 4)\<close>, not \<open>(0, 5/2)\<close> and \<open>(3, 4 - 5/2)\<close>.
\<close>

theorem control_points_vertical_counterexample:
  "linkSelection_d
     [\<lparr>id' = ''A'', name = ''Fetch'', description = [], dependencies = [], status = None,
       type' = None, layer = 0, x = Some 0, y = Some 0\<rparr>,
      \<lparr>id' = ''B'', name = ''Store'', description = [], dependencies = [''A''], status = None,
       type' = None, layer = 2, x = Some 3, y = Some 4\<rparr>]
     \<lparr>source = 0, target = 1\<rparr>
   = Some \<lparr>path_M = (0, 0), path_C1 = (5 / 2, 0), path_C2 = (1 / 2, 4), path_end = (3, 4)\<rparr>
   \<and> linkSelection_d
     [\<lparr>id' = ''A'', name = ''Fetch'', description = [], dependencies = [], status = None,
       type' = None, layer = 0, x = Some 0, y = Some 0\<rparr>,
      \<lparr>id' = ''B'', name = ''Store'', description = [], dependencies = [''A''], status = None,
       type' = None, layer = 2, x = Some 3, y = Some 4\<rparr>]
     \<lparr>source = 0, target = 1\<rparr>
   \<noteq> Some \<lparr>path_M = (0, 0), path_C1 = (0, 0 + 5 / 2), path_C2 = (3, 4 - 5 / 2), path_end = (3, 4)\<rparr>"
  by (simp add: linkSelection_d_def)

text \<open>
  Claim C3. A node whose id is an own key of the saved snapshot ends with exactly the
  saved \<open>x\<close> and \<open>y\<close>, and a node whose id the property read does not find keeps the
  position that default placement gave it (\<open>final_nodes_nth\<close>). The property read also
  finds the members that the snapshot inherits, and there the claim fails: for the single
  step with id "constructor" and the empty snapshot, default placement puts the node at
  \<open>(400, 160)\<close>, and the effect ends with both coordinates of the node \<open>undefined\<close>,
  where the claim has a node whose id is absent from the snapshot keep its default
  position.
\<close>

theorem inherited_key_discards_default_position:
  "default_placement (resolve_width None)
     (canvas_height (build_layers (build_nodes
        [\<lparr>id' = ''constructor'', name = ''Clean Data'', description = [], dependencies = [],
          status = None, type' = None\<rparr>])))
     (build_layers (build_nodes
        [\<lparr>id' = ''constructor'', name = ''Clean Data'', description = [], dependencies = [],
          status = None, type' = None\<rparr>]))
     (build_nodes
        [\<lparr>id' = ''constructor'', name = ''Clean Data'', description = [], dependencies = [],
          status = None, type' = None\<rparr>])
   = Inr [\<lparr>id' = ''constructor'', name = ''Clean Data'', description = [], dependencies = [],
           status = None, type' = None, layer = 1, x = Some 400, y = Some 160\<rparr>]
   \<and> render True None
        [\<lparr>id' = ''constructor'', name = ''Clean Data'', description = [], dependencies = [],
          status = None, type' = None\<rparr>]
        (Some Map.empty)
   = Inr (Some \<lparr>scene_nodes =
                  [\<lparr>id' = ''constructor'', name = ''Clean Data'', description = [],
                    dependencies = [], status = None, type' = None, layer = 1,
                    x = None, y = None\<rparr>],
                scene_links = [], svgHeight = 320,
                positionsRef = [''constructor'' \<mapsto> (None, None)],
                link_paths = [], node_translate = [(None, None)], g_scale = None\<rparr>)"
proof -
  let ?steps = "[\<lparr>id' = ''constructor'', name = ''Clean Data'', description = [], dependencies = [],
          status = None, type' = None\<rparr>]"
  have ly: "build_layers (build_nodes ?steps) = [ [], [0], []]"
    by (simp add: build_layers_def filter_layer_def build_nodes_def make_node_def layer_of_name_def
        toLowerCase_def toLowerCase_char_def)
  have h: "canvas_height [ [], [0], []] = 320"
    by (simp add: canvas_height_def maxLayerSize_def baseHeight_def perNodeHeight_def)
  have w: "resolve_width None = 800"
    by (simp add: resolve_width_def)
  have pl: "map (\<lambda>r. placed 800 320 [ [], [0], []] (build_nodes ?steps ! r) r) [0..<length ?steps] =
        [\<lparr>id' = ''constructor'', name = ''Clean Data'', description = [], dependencies = [],
           status = None, type' = None, layer = 1, x = Some 400, y = Some 160\<rparr>]"
    by (simp add: placed_def paddingX_def paddingY_def build_nodes_def make_node_def layer_of_name_def
        toLowerCase_def toLowerCase_char_def)
  have a: "default_placement (resolve_width None) (canvas_height (build_layers (build_nodes ?steps)))
             (build_layers (build_nodes ?steps)) (build_nodes ?steps) =
           Inr [\<lparr>id' = ''constructor'', name = ''Clean Data'', description = [], dependencies = [],
                 status = None, type' = None, layer = 1, x = Some 400, y = Some 160\<rparr>]"
    using placement_of_build [of 800 320 ?steps] unfolding ly h w pl .
  have inh: "get_property (Map.empty :: string \<rightharpoonup> Position) ''constructor'' = Inherited"
    by (simp add: get_property_def Object_prototype_keys_def)
  have fin: "final_nodes None ?steps (Some Map.empty) =
        [\<lparr>id' = ''constructor'', name = ''Clean Data'', description = [], dependencies = [],
           status = None, type' = None, layer = 1, x = None, y = None\<rparr>]"
    unfolding final_nodes_def Let_def ly h w build_nodes_length pl
    by (simp add: apply_saved_def inh)
  have b: "render True None ?steps (Some Map.empty) =
      Inr (Some \<lparr>scene_nodes =
                  [\<lparr>id' = ''constructor'', name = ''Clean Data'', description = [],
                    dependencies = [], status = None, type' = None, layer = 1,
                    x = None, y = None\<rparr>],
                scene_links = [], svgHeight = 320,
                positionsRef = [''constructor'' \<mapsto> (None, None)],
                link_paths = [], node_translate = [(None, None)], g_scale = None\<rparr>)"
    unfolding render_eq fin ly h
    by (simp add: build_links_def seed_positions_def)
  from a b show ?thesis by (rule conjI)
qed

theorem inherited_key_discards_default_position_witness:
  "\<exists>sc. render True None
          [\<lparr>id' = ''constructor'', name = ''Clean Data'', description = [], dependencies = [],
            status = None, type' = None\<rparr>]
          (Some Map.empty) = Inr (Some sc)
        \<and> map x (scene_nodes sc) = [None] \<and> map y (scene_nodes sc) = [None]
        \<and> positionsRef sc ''constructor'' = Some (None, None)"
  using inherited_key_discards_default_position by simp

text \<open>
  Claim C5. The links are built without an error, and, read as pairs (id of the source
  node, id of the target node), they are exactly the pairs (dependency id, step id)
  taken step by step and dependency by dependency, for the dependency ids that are the
  id of some step: one link for each such declared dependency, in that order. A
  dependency id that is the id of no step gives no link. Both ends of every link are
  node objects of the scene. When step ids are distinct and no step lists a dependency
  twice, no two links share their pair.
\<close>

theorem links_one_per_resolvable_dependency:
  assumes "steps \<noteq> []"
  shows "\<exists>sc. render True cw steps sp = Inr (Some sc)
           \<and> scene_links sc = build_links steps (scene_nodes sc)
           \<and> map (\<lambda>l. (id' (scene_nodes sc ! source l), id' (scene_nodes sc ! target l)))
                 (scene_links sc) =
               concat (map (\<lambda>step. map (\<lambda>d. (d, id' step))
                                      (filter (\<lambda>d. d \<in> id' ` set steps) (dependencies step)))
                         steps)
           \<and> (\<forall>l\<in>set (scene_links sc).
                 source l < length (scene_nodes sc) \<and> target l < length (scene_nodes sc))
           \<and> (\<forall>d. d \<notin> id' ` set steps \<longrightarrow>
                 (\<forall>l\<in>set (scene_links sc). id' (scene_nodes sc ! source l) \<noteq> d))
           \<and> (distinct (map id' steps) \<and> (\<forall>s\<in>set steps. distinct (dependencies s)) \<longrightarrow>
                 distinct (map (\<lambda>l. (id' (scene_nodes sc ! source l), id' (scene_nodes sc ! target l)))
                             (scene_links sc)))"
proof -
  let ?ns = "final_nodes cw steps sp"
  from render_Some [OF assms] obtain sc where
    sc: "render True cw steps sp = Inr (Some sc)" "scene_nodes sc = ?ns"
      "scene_links sc = build_links steps ?ns"
    by blast
  have ids: "map (\<lambda>l. (id' (?ns ! source l), id' (?ns ! target l))) (build_links steps ?ns) =
             concat (map (\<lambda>step. map (\<lambda>d. (d, id' step))
                                    (filter (\<lambda>d. d \<in> id' ` set steps) (dependencies step)))
                       steps)"
    using build_links_ids [of steps ?ns] by (simp add: final_nodes_id_set)
  have refs: "source l < length ?ns \<and> target l < length ?ns \<and> id' (?ns ! source l) \<in> id' ` set steps"
    if "l \<in> set (build_links steps ?ns)" for l
  proof -
    from build_links_refs [OF that] obtain step :: PipelineStep and d where
      "find_node ?ns d = Some (source l)" "find_node ?ns (id' step) = Some (target l)"
      by blast
    then have "source l < length ?ns" "target l < length ?ns"
      by (auto dest: find_node_Some)
    moreover from this have "id' (?ns ! source l) \<in> id' ` set ?ns"
      by simp
    ultimately show ?thesis by (simp add: final_nodes_id_set)
  qed
  have a: "\<forall>l\<in>set (scene_links sc).
             source l < length (scene_nodes sc) \<and> target l < length (scene_nodes sc)"
    using refs by (simp add: sc)
  have b: "\<forall>d. d \<notin> id' ` set steps \<longrightarrow>
             (\<forall>l\<in>set (scene_links sc). id' (scene_nodes sc ! source l) \<noteq> d)"
    using refs by (auto simp: sc)
  have c: "map (\<lambda>l. (id' (scene_nodes sc ! source l), id' (scene_nodes sc ! target l)))
                 (scene_links sc) =
               concat (map (\<lambda>step. map (\<lambda>d. (d, id' step))
                                      (filter (\<lambda>d. d \<in> id' ` set steps) (dependencies step)))
                         steps)"
    using ids by (simp add: sc)
  have d: "scene_links sc = build_links steps (scene_nodes sc)"
    by (simp add: sc)
  have e: "distinct (map id' steps) \<and> (\<forall>s\<in>set steps. distinct (dependencies s)) \<longrightarrow>
                 distinct (map (\<lambda>l. (id' (scene_nodes sc ! source l), id' (scene_nodes sc ! target l)))
                             (scene_links sc))"
    unfolding c using pairs_distinct [of steps] by blast
  show ?thesis
    by (rule exI [of _ sc]) (intro conjI sc(1) d c a b e)
qed

theorem links_one_per_resolvable_dependency_witness:
  "\<exists>sc. render True None
          [\<lparr>id' = ''A'', name = ''Fetch Readings'', description = [], dependencies = [],
            status = None, type' = None\<rparr>,
           \<lparr>id' = ''B'', name = ''Store Results'', description = [],
            dependencies = [''A'', ''Z'', ''B''], status = None, type' = None\<rparr>] None
          = Inr (Some sc)
        \<and> map (\<lambda>l. (id' (scene_nodes sc ! source l), id' (scene_nodes sc ! target l)))
            (scene_links sc) = [(''A'', ''B''), (''B'', ''B'')]"
proof -
  let ?steps = "[\<lparr>id' = ''A'', name = ''Fetch Readings'', description = [], dependencies = [],
            status = None, type' = None\<rparr>,
           \<lparr>id' = ''B'', name = ''Store Results'', description = [],
            dependencies = [''A'', ''Z'', ''B''], status = None, type' = None\<rparr>]"
  have ne: "?steps \<noteq> []" by simp
  from links_one_per_resolvable_dependency [OF ne, of None None]
  obtain sc where sc: "render True None ?steps None = Inr (Some sc)"
    and ids: "map (\<lambda>l. (id' (scene_nodes sc ! source l), id' (scene_nodes sc ! target l)))
                 (scene_links sc) =
               concat (map (\<lambda>step. map (\<lambda>d. (d, id' step))
                                      (filter (\<lambda>d. d \<in> id' ` set ?steps) (dependencies step)))
                         ?steps)"
    by blast
  have "concat (map (\<lambda>step. map (\<lambda>d. (d, id' step))
                                      (filter (\<lambda>d. d \<in> id' ` set ?steps) (dependencies step)))
                         ?steps) = [(''A'', ''B''), (''B'', ''B'')]"
    by simp
  with sc ids show ?thesis by auto
qed

text \<open>
  Claim C7. A drag event at \<open>(ex, ey)\<close> on the node object \<open>d\<close> sets the position of that
  node to \<open>(ex, ey)\<close> and leaves every other node as it was; the path of every link is
  recomputed from the node objects as they are after the event, so that a path of a link
  whose source is \<open>d\<close> starts at \<open>(ex, ey)\<close> and a path of a link whose target is \<open>d\<close>
  ends there; and the live position cache, which is what a save hands to the host, holds
  \<open>(ex, ey)\<close> under the id of the node, without any save having happened.
\<close>

theorem drag_updates_node_links_and_cache:
  assumes "d < length (scene_nodes sc)"
  shows "x (scene_nodes (drag d (ex, ey) sc) ! d) = Some ex
       \<and> y (scene_nodes (drag d (ex, ey) sc) ! d) = Some ey
       \<and> id' (scene_nodes (drag d (ex, ey) sc) ! d) = id' (scene_nodes sc ! d)
       \<and> length (scene_nodes (drag d (ex, ey) sc)) = length (scene_nodes sc)
       \<and> (\<forall>i. i \<noteq> d \<longrightarrow> scene_nodes (drag d (ex, ey) sc) ! i = scene_nodes sc ! i)
       \<and> scene_links (drag d (ex, ey) sc) = scene_links sc
       \<and> link_paths (drag d (ex, ey) sc) =
           map (updateLinks_d (scene_nodes (drag d (ex, ey) sc))) (scene_links sc)
       \<and> (\<forall>i<length (scene_links sc). \<forall>p. link_paths (drag d (ex, ey) sc) ! i = Some p \<longrightarrow>
             (source (scene_links sc ! i) = d \<longrightarrow> path_M p = (ex, ey))
             \<and> (target (scene_links sc ! i) = d \<longrightarrow> path_end p = (ex, ey)))
       \<and> positionsRef (drag d (ex, ey) sc) (id' (scene_nodes sc ! d)) = Some (Some ex, Some ey)
       \<and> save_layout (drag d (ex, ey) sc) (id' (scene_nodes sc ! d)) = Some (Some ex, Some ey)
       \<and> node_translate (drag d (ex, ey) sc) = (node_translate sc)[d := (Some ex, Some ey)]"
proof -
  let ?sc = "drag d (ex, ey) sc"
  have n: "scene_nodes ?sc ! d = (scene_nodes sc ! d)\<lparr>x := Some ex, y := Some ey\<rparr>"
    using assms by (simp add: drag_nodes)
  have a: "x (scene_nodes ?sc ! d) = Some ex" "y (scene_nodes ?sc ! d) = Some ey"
    "id' (scene_nodes ?sc ! d) = id' (scene_nodes sc ! d)"
    by (simp_all add: n)
  have b: "length (scene_nodes ?sc) = length (scene_nodes sc)"
    by (simp add: drag_nodes)
  have c: "\<forall>i. i \<noteq> d \<longrightarrow> scene_nodes ?sc ! i = scene_nodes sc ! i"
    by (simp add: drag_nodes)
  have e: "link_paths ?sc = map (updateLinks_d (scene_nodes ?sc)) (scene_links sc)"
    by (rule drag_paths)
  have f: "(source (scene_links sc ! i) = d \<longrightarrow> path_M p = (ex, ey))
             \<and> (target (scene_links sc ! i) = d \<longrightarrow> path_end p = (ex, ey))"
    if "i < length (scene_links sc)" "link_paths ?sc ! i = Some p" for i p
  proof -
    from that have "linkSelection_d (scene_nodes ?sc) (scene_links sc ! i) = Some p"
      by (simp add: e updateLinks_d_eq)
    from linkSelection_d_ends [OF this] a show ?thesis
      by (auto simp: prod_eq_iff)
  qed
  have g: "positionsRef ?sc (id' (scene_nodes sc ! d)) = Some (Some ex, Some ey)"
    using assms by (simp add: drag_cache)
  have h: "save_layout ?sc (id' (scene_nodes sc ! d)) = Some (Some ex, Some ey)"
    using g by (simp add: save_layout_def)
  have k: "node_translate ?sc = (node_translate sc)[d := (Some ex, Some ey)]"
    using assms by (simp add: drag_def Let_def)
  from f have f': "\<forall>i<length (scene_links sc). \<forall>p. link_paths ?sc ! i = Some p \<longrightarrow>
             (source (scene_links sc ! i) = d \<longrightarrow> path_M p = (ex, ey))
             \<and> (target (scene_links sc ! i) = d \<longrightarrow> path_end p = (ex, ey))"
    by blast
  show ?thesis
    by (intro conjI a b c drag_links e f' g h k)
qed

theorem drag_updates_node_links_and_cache_witness:
  "(0::nat) < length (scene_nodes
      \<lparr>scene_nodes =
         [\<lparr>id' = ''A'', name = ''Fetch'', description = [], dependencies = [], status = None,
           type' = None, layer = 0, x = Some 100, y = Some 160\<rparr>,
          \<lparr>id' = ''B'', name = ''Store'', description = [], dependencies = [''A''], status = None,
           type' = None, layer = 2, x = Some 80, y = Some 100\<rparr>],
       scene_links = [\<lparr>source = 0, target = 1\<rparr>], svgHeight = 320,
       positionsRef = [''A'' \<mapsto> (Some 100, Some 160), ''B'' \<mapsto> (Some 80, Some 100)],
       link_paths = [None], node_translate = [(Some 100, Some 160), (Some 80, Some 100)],
       g_scale = None\<rparr>)
   \<and> link_paths (drag 0 (50, 60)
      \<lparr>scene_nodes =
         [\<lparr>id' = ''A'', name = ''Fetch'', description = [], dependencies = [], status = None,
           type' = None, layer = 0, x = Some 100, y = Some 160\<rparr>,
          \<lparr>id' = ''B'', name = ''Store'', description = [], dependencies = [''A''], status = None,
           type' = None, layer = 2, x = Some 80, y = Some 100\<rparr>],
       scene_links = [\<lparr>source = 0, target = 1\<rparr>], svgHeight = 320,
       positionsRef = [''A'' \<mapsto> (Some 100, Some 160), ''B'' \<mapsto> (Some 80, Some 100)],
       link_paths = [None], node_translate = [(Some 100, Some 160), (Some 80, Some 100)],
       g_scale = None\<rparr>)
     = [Some \<lparr>path_M = (50, 60), path_C1 = (75, 60), path_C2 = (55, 100), path_end = (80, 100)\<rparr>]
   \<and> positionsRef (drag 0 (50, 60)
      \<lparr>scene_nodes =
         [\<lparr>id' = ''A'', name = ''Fetch'', description = [], dependencies = [], status = None,
           type' = None, layer = 0, x = Some 100, y = Some 160\<rparr>,
          \<lparr>id' = ''B'', name = ''Store'', description = [], dependencies = [''A''], status = None,
           type' = None, layer = 2, x = Some 80, y = Some 100\<rparr>],
       scene_links = [\<lparr>source = 0, target = 1\<rparr>], svgHeight = 320,
       positionsRef = [''A'' \<mapsto> (Some 100, Some 160), ''B'' \<mapsto> (Some 80, Some 100)],
       link_paths = [None], node_translate = [(Some 100, Some 160), (Some 80, Some 100)],
       g_scale = None\<rparr>) ''A'' = Some (Some 50, Some 60)"
proof -
  let ?ns = "[\<lparr>id' = ''A'', name = ''Fetch'', description = [], dependencies = [], status = None,
           type' = None, layer = 0, x = Some 100, y = Some 160\<rparr>,
          \<lparr>id' = ''B'', name = ''Store'', description = [], dependencies = [''A''], status = None,
           type' = None, layer = 2, x = Some 80, y = Some 100\<rparr>]"
  let ?sc = "\<lparr>scene_nodes = ?ns,
       scene_links = [\<lparr>source = 0, target = 1\<rparr>], svgHeight = 320,
       positionsRef = [''A'' \<mapsto> (Some 100, Some 160), ''B'' \<mapsto> (Some 80, Some 100)],
       link_paths = [None], node_translate = [(Some 100, Some 160), (Some 80, Some 100)],
       g_scale = None\<rparr>"
  have h: "(0::nat) < length (scene_nodes ?sc)" by simp
  note T = drag_updates_node_links_and_cache [OF h, of 50 60]
  have xs: "x (scene_nodes (drag 0 (50, 60) ?sc) ! 0) = Some 50"
    and ys: "y (scene_nodes (drag 0 (50, 60) ?sc) ! 0) = Some 60"
    and others: "\<forall>i. i \<noteq> 0 \<longrightarrow> scene_nodes (drag 0 (50, 60) ?sc) ! i = scene_nodes ?sc ! i"
    and paths: "link_paths (drag 0 (50, 60) ?sc) =
           map (updateLinks_d (scene_nodes (drag 0 (50, 60) ?sc))) (scene_links ?sc)"
    and cache: "positionsRef (drag 0 (50, 60) ?sc) (id' (scene_nodes ?sc ! 0)) = Some (Some 50, Some 60)"
    using T by blast+
  have b: "scene_nodes (drag 0 (50, 60) ?sc) ! 1 = ?ns ! 1"
    using others by simp
  have "updateLinks_d (scene_nodes (drag 0 (50, 60) ?sc)) \<lparr>source = 0, target = 1\<rparr> =
        Some \<lparr>path_M = (50, 60), path_C1 = (75, 60), path_C2 = (55, 100), path_end = (80, 100)\<rparr>"
    using xs ys b by (simp add: updateLinks_d_def)
  with paths cache h show ?thesis by simp
qed

text \<open>
  Claim C8, as the code has it. An absent container and a container of width zero give
  the width 800, and the width used is always positive. Neither the effect nor default
  placement fails: no bucket is \<open>undefined\<close> and no division has a zero divisor. For a
  non-empty step list default placement assigns both coordinates of every node a number,
  and the effect ends with one node per step, with both coordinates a number for every
  node whose id the saved snapshot, if there is one, does not resolve to an inherited
  member. When the width used exceeds twice the horizontal margin, default placement
  gives no two nodes the same position.
\<close>

theorem positions_defined_unless_inherited:
  "resolve_width None = 800 \<and> resolve_width (Some 0) = 800 \<and> 0 < resolve_width cw
   \<and> (\<forall>e. render m cw steps sp \<noteq> Inl e)
   \<and> (\<forall>e. default_placement w h (build_layers (build_nodes steps)) (build_nodes steps) \<noteq> Inl e)
   \<and> (steps \<noteq> [] \<longrightarrow>
        (\<exists>sc pl. render True cw steps sp = Inr (Some sc) \<and> length (scene_nodes sc) = length steps
           \<and> default_placement (resolve_width cw) (canvas_height (build_layers (build_nodes steps)))
                (build_layers (build_nodes steps)) (build_nodes steps) = Inr pl
           \<and> length pl = length steps
           \<and> (\<forall>i<length steps. \<exists>vx vy. x (pl ! i) = Some vx \<and> y (pl ! i) = Some vy)
           \<and> (\<forall>i<length steps.
                 (\<forall>positions. sp = Some positions \<longrightarrow>
                    get_property positions (id' (steps ! i)) \<noteq> Inherited) \<longrightarrow>
                 (\<exists>vx vy. x (scene_nodes sc ! i) = Some vx \<and> y (scene_nodes sc ! i) = Some vy))
           \<and> (2 * paddingX < resolve_width cw \<longrightarrow>
                 (\<forall>i<length steps. \<forall>j<length steps. i \<noteq> j \<longrightarrow>
                    (x (pl ! i), y (pl ! i)) \<noteq> (x (pl ! j), y (pl ! j))))))"
proof -
  let ?nodes = "build_nodes steps"
  let ?layers = "build_layers ?nodes"
  let ?w = "resolve_width cw"
  let ?h = "canvas_height ?layers"
  let ?pl = "map (\<lambda>r. placed ?w ?h ?layers (?nodes ! r) r) [0..<length steps]"
  have wd: "resolve_width None = 800 \<and> resolve_width (Some 0) = 800 \<and> 0 < resolve_width cw"
    by (simp add: resolve_width_def split: option.splits)
  have r: "\<forall>e. render m cw steps sp \<noteq> Inl e"
    by (simp add: render_eq)
  have p: "\<forall>e. default_placement w h (build_layers (build_nodes steps)) (build_nodes steps) \<noteq> Inl e"
    by (simp add: placement_of_build)
  have d: "\<exists>sc pl. render True cw steps sp = Inr (Some sc) \<and> length (scene_nodes sc) = length steps
           \<and> default_placement ?w ?h ?layers ?nodes = Inr pl
           \<and> length pl = length steps
           \<and> (\<forall>i<length steps. \<exists>vx vy. x (pl ! i) = Some vx \<and> y (pl ! i) = Some vy)
           \<and> (\<forall>i<length steps.
                 (\<forall>positions. sp = Some positions \<longrightarrow>
                    get_property positions (id' (steps ! i)) \<noteq> Inherited) \<longrightarrow>
                 (\<exists>vx vy. x (scene_nodes sc ! i) = Some vx \<and> y (scene_nodes sc ! i) = Some vy))
           \<and> (2 * paddingX < ?w \<longrightarrow>
                 (\<forall>i<length steps. \<forall>j<length steps. i \<noteq> j \<longrightarrow>
                    (x (pl ! i), y (pl ! i)) \<noteq> (x (pl ! j), y (pl ! j))))"
    if ne: "steps \<noteq> []"
  proof -
    from render_Some [OF ne] obtain sc where
      sc: "render True cw steps sp = Inr (Some sc)" "scene_nodes sc = final_nodes cw steps sp"
      by blast
    have run: "default_placement ?w ?h ?layers ?nodes = Inr ?pl"
      by (rule placement_of_build)
    have a: "length (scene_nodes sc) = length steps"
      by (simp add: sc)
    have b: "length ?pl = length steps"
      by simp
    have c: "\<forall>i<length steps. \<exists>vx vy. x (?pl ! i) = Some vx \<and> y (?pl ! i) = Some vy"
      by (simp add: placed_def)
    have e: "\<forall>i<length steps.
                 (\<forall>positions. sp = Some positions \<longrightarrow>
                    get_property positions (id' (steps ! i)) \<noteq> Inherited) \<longrightarrow>
                 (\<exists>vx vy. x (scene_nodes sc ! i) = Some vx \<and> y (scene_nodes sc ! i) = Some vy)"
      unfolding sc(2) using final_nodes_defined [of _ steps sp cw] by blast
    have hh: "?h \<noteq> 2 * paddingY"
      using canvas_height_ge [of ?layers] by (simp add: baseHeight_def paddingY_def)
    have f: "2 * paddingX < ?w \<longrightarrow>
                 (\<forall>i<length steps. \<forall>j<length steps. i \<noteq> j \<longrightarrow>
                    (x (?pl ! i), y (?pl ! i)) \<noteq> (x (?pl ! j), y (?pl ! j)))"
    proof (intro impI allI)
      fix i j
      assume "2 * paddingX < ?w" and "i < length steps" and "j < length steps" and "i \<noteq> j"
      then show "(x (?pl ! i), y (?pl ! i)) \<noteq> (x (?pl ! j), y (?pl ! j))"
        using placed_build_distinct [of i steps j ?nodes ?layers ?w ?h] hh by simp
    qed
    show ?thesis
      by (rule exI [of _ sc], rule exI [of _ ?pl]) (intro conjI sc(1) a run b c e f)
  qed
  from wd r p d show ?thesis by blast
qed

theorem positions_defined_unless_inherited_witness:
  "\<exists>sc pl. render True (Some 0)
          [\<lparr>id' = ''A'', name = ''Fetch Readings'', description = [], dependencies = [],
            status = None, type' = None\<rparr>,
           \<lparr>id' = ''B'', name = ''Store Results'', description = [], dependencies = [''A''],
            status = None, type' = None\<rparr>] (Some [''A'' \<mapsto> (10, 20)]) = Inr (Some sc)
        \<and> default_placement 800
             (canvas_height (build_layers (build_nodes
               [\<lparr>id' = ''A'', name = ''Fetch Readings'', description = [], dependencies = [],
                 status = None, type' = None\<rparr>,
                \<lparr>id' = ''B'', name = ''Store Results'', description = [], dependencies = [''A''],
                 status = None, type' = None\<rparr>])))
             (build_layers (build_nodes
               [\<lparr>id' = ''A'', name = ''Fetch Readings'', description = [], dependencies = [],
                 status = None, type' = None\<rparr>,
                \<lparr>id' = ''B'', name = ''Store Results'', description = [], dependencies = [''A''],
                 status = None, type' = None\<rparr>]))
             (build_nodes
               [\<lparr>id' = ''A'', name = ''Fetch Readings'', description = [], dependencies = [],
                 status = None, type' = None\<rparr>,
                \<lparr>id' = ''B'', name = ''Store Results'', description = [], dependencies = [''A''],
                 status = None, type' = None\<rparr>]) = Inr pl
        \<and> (\<exists>vx vy. x (scene_nodes sc ! 0) = Some vx \<and> y (scene_nodes sc ! 0) = Some vy)
        \<and> (\<exists>vx vy. x (scene_nodes sc ! 1) = Some vx \<and> y (scene_nodes sc ! 1) = Some vy)
        \<and> (x (pl ! 0), y (pl ! 0)) \<noteq> (x (pl ! 1), y (pl ! 1))"
proof -
  let ?steps = "[\<lparr>id' = ''A'', name = ''Fetch Readings'', description = [], dependencies = [],
            status = None, type' = None\<rparr>,
           \<lparr>id' = ''B'', name = ''Store Results'', description = [], dependencies = [''A''],
            status = None, type' = None\<rparr>]"
  let ?pos = "[''A'' \<mapsto> ((10, 20) :: Position)]"
  have ne: "?steps \<noteq> []" by simp
  have w: "resolve_width (Some 0) = 800"
    by (simp add: resolve_width_def)
  from positions_defined_unless_inherited [of "Some 0" True ?steps "Some ?pos" 800 320] ne
  obtain sc pl where sc: "render True (Some 0) ?steps (Some ?pos) = Inr (Some sc)"
    and pl: "default_placement (resolve_width (Some 0))
               (canvas_height (build_layers (build_nodes ?steps)))
               (build_layers (build_nodes ?steps)) (build_nodes ?steps) = Inr pl"
    and def: "\<forall>i<length ?steps.
                 (\<forall>positions. Some ?pos = Some positions \<longrightarrow>
                    get_property positions (id' (?steps ! i)) \<noteq> Inherited) \<longrightarrow>
                 (\<exists>vx vy. x (scene_nodes sc ! i) = Some vx \<and> y (scene_nodes sc ! i) = Some vy)"
    and dis: "2 * paddingX < resolve_width (Some 0) \<longrightarrow>
                 (\<forall>i<length ?steps. \<forall>j<length ?steps. i \<noteq> j \<longrightarrow>
                    (x (pl ! i), y (pl ! i)) \<noteq> (x (pl ! j), y (pl ! j)))"
    by blast
  have i0: "(0::nat) < length ?steps" and i1: "(1::nat) < length ?steps" by simp_all
  have k0: "\<forall>positions. Some ?pos = Some positions \<longrightarrow>
              get_property positions (id' (?steps ! 0)) \<noteq> Inherited"
    by (simp add: get_property_def)
  have k1: "\<forall>positions. Some ?pos = Some positions \<longrightarrow>
              get_property positions (id' (?steps ! 1)) \<noteq> Inherited"
    by (simp add: get_property_def Object_prototype_keys_def)
  have a: "\<exists>vx vy. x (scene_nodes sc ! 0) = Some vx \<and> y (scene_nodes sc ! 0) = Some vy"
    using def i0 k0 by blast
  have b: "\<exists>vx vy. x (scene_nodes sc ! 1) = Some vx \<and> y (scene_nodes sc ! 1) = Some vy"
    using def i1 k1 by blast
  have wide: "2 * paddingX < resolve_width (Some 0)"
    by (simp add: w paddingX_def)
  have ne01: "(0::nat) \<noteq> 1" by simp
  have c: "(x (pl ! 0), y (pl ! 0)) \<noteq> (x (pl ! 1), y (pl ! 1))"
    using dis wide i0 i1 ne01 by blast
  from sc pl a b c show ?thesis
    unfolding w by blast
qed

text \<open>
  Claim C8 as stated fails. At the width 200, which is resolvable and is used as it is,
  a step of each layer is placed at \<open>(100, 160)\<close>: the three columns coincide. And with
  the saved snapshot \<open>{A: {x: 10, y: 20}}\<close> the node with id "toString", which the
  property read resolves to an inherited member, ends with both coordinates
  \<open>undefined\<close>.
\<close>

theorem positions_degenerate_or_undefined_counterexample:
  "render True (Some 200)
        [\<lparr>id' = ''A'', name = ''Fetch Readings'', description = [], dependencies = [],
          status = None, type' = None\<rparr>,
         \<lparr>id' = ''B'', name = ''Clean Data'', description = [], dependencies = [],
          status = None, type' = None\<rparr>,
         \<lparr>id' = ''C'', name = ''Store Results'', description = [], dependencies = [],
          status = None, type' = None\<rparr>]
        None
   = Inr (Some \<lparr>scene_nodes =
                  [\<lparr>id' = ''A'', name = ''Fetch Readings'', description = [], dependencies = [],
                    status = None, type' = None, layer = 0, x = Some 100, y = Some 160\<rparr>,
                   \<lparr>id' = ''B'', name = ''Clean Data'', description = [], dependencies = [],
                    status = None, type' = None, layer = 1, x = Some 100, y = Some 160\<rparr>,
                   \<lparr>id' = ''C'', name = ''Store Results'', description = [], dependencies = [],
                    status = None, type' = None, layer = 2, x = Some 100, y = Some 160\<rparr>],
                scene_links = [], svgHeight = 320,
                positionsRef = [''A'' \<mapsto> (Some 100, Some 160), ''B'' \<mapsto> (Some 100, Some 160),
                                ''C'' \<mapsto> (Some 100, Some 160)],
                link_paths = [],
                node_translate = [(Some 100, Some 160), (Some 100, Some 160), (Some 100, Some 160)],
                g_scale = None\<rparr>)
   \<and> render True None
        [\<lparr>id' = ''A'', name = ''Fetch Readings'', description = [], dependencies = [],
          status = None, type' = None\<rparr>,
         \<lparr>id' = ''toString'', name = ''Clean Data'', description = [], dependencies = [],
          status = None, type' = None\<rparr>]
        (Some [''A'' \<mapsto> (10, 20)])
   = Inr (Some \<lparr>scene_nodes =
                  [\<lparr>id' = ''A'', name = ''Fetch Readings'', description = [], dependencies = [],
                    status = None, type' = None, layer = 0, x = Some 10, y = Some 20\<rparr>,
                   \<lparr>id' = ''toString'', name = ''Clean Data'', description = [],
                    dependencies = [], status = None, type' = None, layer = 1,
                    x = None, y = None\<rparr>],
                scene_links = [], svgHeight = 320,
                positionsRef = [''A'' \<mapsto> (Some 10, Some 20), ''toString'' \<mapsto> (None, None)],
                link_paths = [],
                node_translate = [(Some 10, Some 20), (None, None)],
                g_scale = None\<rparr>)"
proof -
  let ?s3 = "[\<lparr>id' = ''A'', name = ''Fetch Readings'', description = [], dependencies = [],
          status = None, type' = None\<rparr>,
         \<lparr>id' = ''B'', name = ''Clean Data'', description = [], dependencies = [],
          status = None, type' = None\<rparr>,
         \<lparr>id' = ''C'', name = ''Store Results'', description = [], dependencies = [],
          status = None, type' = None\<rparr>]"
  let ?s2 = "[\<lparr>id' = ''A'', name = ''Fetch Readings'', description = [], dependencies = [],
          status = None, type' = None\<rparr>,
         \<lparr>id' = ''toString'', name = ''Clean Data'', description = [], dependencies = [],
          status = None, type' = None\<rparr>]"
  have ly3: "build_layers (build_nodes ?s3) = [ [0], [1], [2]]"
    by (simp add: build_layers_def filter_layer_def build_nodes_def make_node_def layer_of_name_def
        toLowerCase_def toLowerCase_char_def upt_conv_Cons)
  have ly2: "build_layers (build_nodes ?s2) = [ [0], [1], []]"
    by (simp add: build_layers_def filter_layer_def build_nodes_def make_node_def layer_of_name_def
        toLowerCase_def toLowerCase_char_def upt_conv_Cons)
  have h3: "canvas_height [ [0], [1], [2]] = 320" and h2: "canvas_height [ [0], [1], []] = 320"
    by (simp_all add: canvas_height_def maxLayerSize_def baseHeight_def perNodeHeight_def)
  have w3: "resolve_width (Some 200) = 200" and w2: "resolve_width None = 800"
    by (simp_all add: resolve_width_def)
  have fin3: "final_nodes (Some 200) ?s3 None =
                  [\<lparr>id' = ''A'', name = ''Fetch Readings'', description = [], dependencies = [],
                    status = None, type' = None, layer = 0, x = Some 100, y = Some 160\<rparr>,
                   \<lparr>id' = ''B'', name = ''Clean Data'', description = [], dependencies = [],
                    status = None, type' = None, layer = 1, x = Some 100, y = Some 160\<rparr>,
                   \<lparr>id' = ''C'', name = ''Store Results'', description = [], dependencies = [],
                    status = None, type' = None, layer = 2, x = Some 100, y = Some 160\<rparr>]"
    unfolding final_nodes_def Let_def ly3 h3 w3 build_nodes_length
    by (simp add: apply_saved_def placed_def paddingX_def paddingY_def build_nodes_def make_node_def
        layer_of_name_def toLowerCase_def toLowerCase_char_def upt_conv_Cons)
  have own: "get_property [''A'' \<mapsto> ((10, 20) :: Position)] ''A'' = Own (10, 20)"
    and inh: "get_property [''A'' \<mapsto> ((10, 20) :: Position)] ''toString'' = Inherited"
    by (simp_all add: get_property_def Object_prototype_keys_def)
  have fin2: "final_nodes None ?s2 (Some [''A'' \<mapsto> (10, 20)]) =
                  [\<lparr>id' = ''A'', name = ''Fetch Readings'', description = [], dependencies = [],
                    status = None, type' = None, layer = 0, x = Some 10, y = Some 20\<rparr>,
                   \<lparr>id' = ''toString'', name = ''Clean Data'', description = [],
                    dependencies = [], status = None, type' = None, layer = 1,
                    x = None, y = None\<rparr>]"
    unfolding final_nodes_def Let_def ly2 h2 w2 build_nodes_length
    by (simp add: apply_saved_def own inh placed_def build_nodes_def make_node_def
        layer_of_name_def toLowerCase_def toLowerCase_char_def upt_conv_Cons)
  have a: "render True (Some 200) ?s3 None =
     Inr (Some \<lparr>scene_nodes =
                  [\<lparr>id' = ''A'', name = ''Fetch Readings'', description = [], dependencies = [],
                    status = None, type' = None, layer = 0, x = Some 100, y = Some 160\<rparr>,
                   \<lparr>id' = ''B'', name = ''Clean Data'', description = [], dependencies = [],
                    status = None, type' = None, layer = 1, x = Some 100, y = Some 160\<rparr>,
                   \<lparr>id' = ''C'', name = ''Store Results'', description = [], dependencies = [],
                    status = None, type' = None, layer = 2, x = Some 100, y = Some 160\<rparr>],
                scene_links = [], svgHeight = 320,
                positionsRef = [''A'' \<mapsto> (Some 100, Some 160), ''B'' \<mapsto> (Some 100, Some 160),
                                ''C'' \<mapsto> (Some 100, Some 160)],
                link_paths = [],
                node_translate = [(Some 100, Some 160), (Some 100, Some 160), (Some 100, Some 160)],
                g_scale = None\<rparr>)"
    unfolding render_eq fin3 ly3 h3
    by (simp add: build_links_def seed_positions_def)
  have b: "render True None ?s2 (Some [''A'' \<mapsto> (10, 20)]) =
     Inr (Some \<lparr>scene_nodes =
                  [\<lparr>id' = ''A'', name = ''Fetch Readings'', description = [], dependencies = [],
                    status = None, type' = None, layer = 0, x = Some 10, y = Some 20\<rparr>,
                   \<lparr>id' = ''toString'', name = ''Clean Data'', description = [],
                    dependencies = [], status = None, type' = None, layer = 1,
                    x = None, y = None\<rparr>],
                scene_links = [], svgHeight = 320,
                positionsRef = [''A'' \<mapsto> (Some 10, Some 20), ''toString'' \<mapsto> (None, None)],
                link_paths = [],
                node_translate = [(Some 10, Some 20), (None, None)],
                g_scale = None\<rparr>)"
    unfolding render_eq fin2 ly2 h2
    by (simp add: build_links_def seed_positions_def)
  from a b show ?thesis by (rule conjI)
qed

text \<open>
  Claim C9. The scale extent is \<open>[0.7, 1.6]\<close>, below 1 at the lower end and above 1 at the
  upper end. A gesture that asks for the scale 0.2 leaves the scene at 0.7 and one that
  asks for 5.0 leaves it at 1.6; after any gesture, and after any sequence of gestures
  on a freshly drawn scene, the scale of the scene is within the extent.
\<close>

theorem zoom_scale_stays_in_extent:
  "scaleExtent = (0.7, 1.6) \<and> fst scaleExtent < 1 \<and> 1 < snd scaleExtent
   \<and> rendered_scale (zoom_gesture 0.2 sc) = fst scaleExtent
   \<and> rendered_scale (zoom_gesture 5.0 sc) = snd scaleExtent
   \<and> fst scaleExtent \<le> rendered_scale (zoom_gesture k sc)
   \<and> rendered_scale (zoom_gesture k sc) \<le> snd scaleExtent
   \<and> (\<forall>sc0. render m cw steps sp = Inr (Some sc0) \<longrightarrow>
         fst scaleExtent \<le> rendered_scale (fold zoom_gesture requests sc0)
         \<and> rendered_scale (fold zoom_gesture requests sc0) \<le> snd scaleExtent)"
proof -
  have a: "scaleExtent = (0.7, 1.6) \<and> fst scaleExtent < 1 \<and> 1 < snd scaleExtent"
    by (simp add: scaleExtent_def)
  have b: "rendered_scale (zoom_gesture 0.2 sc) = fst scaleExtent"
    "rendered_scale (zoom_gesture 5.0 sc) = snd scaleExtent"
    by (simp_all add: rendered_scale_def zoom_gesture_def d3_constrain_scale_def scaleExtent_def)
  have c: "fst scaleExtent \<le> rendered_scale (zoom_gesture k sc)
       \<and> rendered_scale (zoom_gesture k sc) \<le> snd scaleExtent"
    using constrain_in_extent [of k] by (simp add: rendered_scale_def zoom_gesture_def)
  have d: "\<forall>sc0. render m cw steps sp = Inr (Some sc0) \<longrightarrow>
         fst scaleExtent \<le> rendered_scale (fold zoom_gesture requests sc0)
         \<and> rendered_scale (fold zoom_gesture requests sc0) \<le> snd scaleExtent"
  proof (intro allI impI)
    fix sc0 assume "render m cw steps sp = Inr (Some sc0)"
    then have "g_scale sc0 = None"
      by (auto simp: render_eq split: if_splits)
    then show "fst scaleExtent \<le> rendered_scale (fold zoom_gesture requests sc0)
         \<and> rendered_scale (fold zoom_gesture requests sc0) \<le> snd scaleExtent"
      by (intro fold_zoom_scale) simp
  qed
  from a b c d show ?thesis by blast
qed

theorem zoom_scale_stays_in_extent_witness:
  "\<exists>sc0. render True None
          [\<lparr>id' = ''A'', name = ''Fetch Readings'', description = [], dependencies = [],
            status = None, type' = None\<rparr>] None = Inr (Some sc0)
        \<and> 0.7 \<le> rendered_scale (fold zoom_gesture [0.2, 5.0, 1.2] sc0)
        \<and> rendered_scale (fold zoom_gesture [0.2, 5.0, 1.2] sc0) \<le> 1.6"
proof -
  let ?steps = "[\<lparr>id' = ''A'', name = ''Fetch Readings'', description = [], dependencies = [],
            status = None, type' = None\<rparr>]"
  have ne: "?steps \<noteq> []" by simp
  from render_Some [OF ne, of None None] obtain sc0 where
    sc0: "render True None ?steps None = Inr (Some sc0)"
    by blast
  from zoom_scale_stays_in_extent [of sc0 1 True None ?steps None "[0.2, 5.0, 1.2]"] sc0
  have "fst scaleExtent \<le> rendered_scale (fold zoom_gesture [0.2, 5.0, 1.2] sc0)
         \<and> rendered_scale (fold zoom_gesture [0.2, 5.0, 1.2] sc0) \<le> snd scaleExtent"
    by blast
  with sc0 show ?thesis by (auto simp: scaleExtent_def)
qed

text \<open>
  Claim C10. Link derivation checks neither cycles nor self-reference: every declared
  dependency whose id is the id of some step gives a link from a node with that id to a
  node with the id of the depending step, whatever the shape of the dependency graph; for
  a step that lists its own id the two ends of that link are the same node object.
\<close>

theorem self_and_cyclic_dependencies_yield_links:
  assumes "step \<in> set steps" and "d \<in> set (dependencies step)" and "d \<in> id' ` set steps"
  shows "\<exists>sc. render True cw steps sp = Inr (Some sc)
           \<and> (\<exists>l\<in>set (scene_links sc).
                 id' (scene_nodes sc ! source l) = d
                 \<and> id' (scene_nodes sc ! target l) = id' step
                 \<and> (d = id' step \<longrightarrow> source l = target l))"
proof -
  let ?ns = "final_nodes cw steps sp"
  from assms(1) have ne: "steps \<noteq> []" by auto
  from render_Some [OF ne] obtain sc where
    sc: "render True cw steps sp = Inr (Some sc)" "scene_nodes sc = ?ns"
      "scene_links sc = build_links steps ?ns"
    by blast
  from assms(3) have "find_node ?ns d \<noteq> None"
    by (simp add: find_node_None final_nodes_id_set)
  then obtain s where s: "find_node ?ns d = Some s" by auto
  from assms(1) have "find_node ?ns (id' step) \<noteq> None"
    by (simp add: find_node_None final_nodes_id_set)
  then obtain t where t: "find_node ?ns (id' step) = Some t" by auto
  let ?l = "\<lparr>source = s, target = t\<rparr>"
  have mem: "?l \<in> set (scene_links sc)"
    using build_links_member [OF assms(1,2) s t] by (simp add: sc)
  have "id' (?ns ! s) = d" "id' (?ns ! t) = id' step"
    using find_node_Some [OF s] find_node_Some [OF t] by simp_all
  moreover have "d = id' step \<longrightarrow> s = t"
    using s t by auto
  ultimately have "id' (scene_nodes sc ! source ?l) = d
                 \<and> id' (scene_nodes sc ! target ?l) = id' step
                 \<and> (d = id' step \<longrightarrow> source ?l = target ?l)"
    by (simp add: sc)
  with mem sc(1) show ?thesis by blast
qed

theorem self_and_cyclic_dependencies_yield_links_witness:
  "\<exists>sc. render True None
          [\<lparr>id' = ''A'', name = ''Fetch Readings'', description = [], dependencies = [''B''],
            status = None, type' = None\<rparr>,
           \<lparr>id' = ''B'', name = ''Store Results'', description = [],
            dependencies = [''A'', ''B''], status = None, type' = None\<rparr>] None
          = Inr (Some sc)
        \<and> (\<exists>l\<in>set (scene_links sc).
              id' (scene_nodes sc ! source l) = ''B'' \<and> id' (scene_nodes sc ! target l) = ''B''
              \<and> source l = target l)"
proof -
  let ?b = "\<lparr>id' = ''B'', name = ''Store Results'', description = [],
            dependencies = [''A'', ''B''], status = None, type' = None\<rparr>"
  let ?steps = "[\<lparr>id' = ''A'', name = ''Fetch Readings'', description = [], dependencies = [''B''],
            status = None, type' = None\<rparr>, ?b]"
  have h1: "?b \<in> set ?steps" by simp
  have h2: "''B'' \<in> set (dependencies ?b)" by simp
  have h3: "''B'' \<in> id' ` set ?steps" by simp
  from self_and_cyclic_dependencies_yield_links [OF h1 h2 h3, of None None]
  show ?thesis by simp
qed

end
